theory Spec2Isabelle
  imports Complex_Main "HOL-Library.Word" "HOL-Library.Sublist" "HOL-Library.Log_Nat"
begin

unbundle bit_operations_syntax

section \<open>The Blinkt! driver for the Pi 5 (blinkt\_pi5.py)\<close>

text \<open>
  The driver is a Python module whose globals are the pixel buffer \<open>pixels\<close>, the flags
  \<open>_gpio_setup\<close> and \<open>_clear_on_exit\<close> and the chip handle \<open>_handle\<close>. The module state
  is a record that every operation takes and returns.

  \<^item> \<open>pixels\<close> is a Python list of references to four-element lists
    \<open>[r, g, b, brightness]\<close>. The module creates it by
    replicating one list \<^verbatim>\<open>[0, 0, 0, BRIGHTNESS]\<close> \<open>NUM_PIXELS\<close> times with \<^verbatim>\<open>*\<close>,
    which gives eight references to one list object, and
    \<open>set_brightness\<close> and \<open>clear\<close> mutate the referenced lists in place. The model
    therefore keeps an explicit store: \<open>pixels\<close> holds addresses, \<open>heap\<close> maps an
    address to the list object living there, and \<open>next_addr\<close> is the first address
    that no list has been allocated at.
  \<^item> Python integers are unbounded: \<open>int\<close>, with \<open>AND\<close>, \<open>OR\<close> and \<open>push_bit\<close>
    in two's complement, as Python's \<^verbatim>\<open>&\<close>, \<^verbatim>\<open>|\<close> and \<^verbatim>\<open><<\<close>.
  \<^item> A Python float is a binary64 number. A finite float is modelled by its value, a
    rational number, and each floating-point operation by the exact result rounded to
    the nearest binary64 number, ties to the even significand (\<open>fl\<close>), with the
    subnormal numbers; the exponent range is taken to be unbounded above, so a result
    beyond the largest float, infinities and NaN are outside the model, and the two
    zeros are one.
  \<^item> A brightness argument is an \<open>int\<close> or a \<open>float\<close>. A colour argument is any
    object that \<^verbatim>\<open>int()\<close> converts: an \<open>int\<close>, a \<open>float\<close> or another object, given
    by the integer that \<^verbatim>\<open>int()\<close> returns on it.
  \<^item> An exception is an outcome \<open>Raised e\<close>, returned together with the state in which
    it was raised, so that what a failing call has already changed stays visible.
  \<^item> Every call into \<open>lgpio\<close>, \<open>time\<close> and \<open>atexit\<close> is recorded, in order, in
    \<open>trace\<close>. The library is not part of the repository: whether a
    \<open>gpio_claim_output\<close> or \<open>gpio_free\<close> call returns or raises \<open>lgpio.error\<close> is read
    from the environment \<open>lgpio_ok\<close>, indexed by the number of such calls made so far;
    \<open>gpiochip_open\<close>, \<open>gpio_write\<close>, \<open>time.sleep\<close> and \<open>atexit.register\<close> are
    taken to return normally.
\<close>

subsection \<open>Constants\<close>

definition DAT :: nat where "DAT = 23"
definition CLK :: nat where "CLK = 24"
definition NUM_PIXELS :: nat where "NUM_PIXELS = 8"
definition BRIGHTNESS :: int where "BRIGHTNESS = 7"

subsection \<open>State\<close>

datatype error = IndexError | ValueError | LgpioError

datatype outcome = Returned | Raised error

datatype event =
    ChipOpen nat
  | ClaimOutput "nat option" nat
  | Free "nat option" nat
  | GpioWrite "nat option" nat nat
  | Sleep nat
  | AtexitRegister

type_synonym addr = nat

record driver =
  pixels :: "addr list"
  heap :: "addr \<Rightarrow> int list"
  next_addr :: addr
  gpio_setup :: bool
  clear_on_exit :: bool
  handle :: "nat option"
  trace :: "event list"
  lgpio_ok :: "nat \<Rightarrow> bool"
  lgpio_calls :: nat
  gpiochips :: "(nat \<times> string) list"

text \<open>
  The state after the module has been imported, in an environment given by the
  outcomes of the coming \<open>lgpio\<close> calls and by the labels of the GPIO chips found in
  sysfs (in the order of their sorted paths). All eight slots hold address 0.
\<close>

definition init :: "(nat \<Rightarrow> bool) \<Rightarrow> (nat \<times> string) list \<Rightarrow> driver" where
  "init ok chips =
     \<lparr> pixels = replicate NUM_PIXELS 0,
       heap = (\<lambda>_. [])(0 := [0, 0, 0, BRIGHTNESS]),
       next_addr = 1,
       gpio_setup = False,
       clear_on_exit = True,
       handle = None,
       trace = [],
       lgpio_ok = ok,
       lgpio_calls = 0,
       gpiochips = chips \<rparr>"

text \<open>The contents of the buffer as a caller observes them, slot by slot.\<close>

definition buffer :: "driver \<Rightarrow> int list list" where
  "buffer s = map (heap s) (pixels s)"

subsection \<open>Python primitives\<close>

text \<open>\<^verbatim>\<open>xs[i]\<close>: a negative index counts from the end; out of range is an IndexError.\<close>

definition py_index :: "'a list \<Rightarrow> int \<Rightarrow> nat option" where
  "py_index xs i =
     (let n = int (length xs); j = (if i < 0 then i + n else i)
      in if 0 \<le> j \<and> j < n then Some (nat j) else None)"

text \<open>Numbers, and the arguments that \<^verbatim>\<open>int()\<close> accepts.\<close>

datatype pynum = PyInt int | PyFloat rat

datatype pyval = Num pynum | Obj int

text \<open>\<^verbatim>\<open>int(x)\<close> on a float truncates towards zero.\<close>

definition int_of_float :: "rat \<Rightarrow> int" where
  "int_of_float x = (if 0 \<le> x then \<lfloor>x\<rfloor> else \<lceil>x\<rceil>)"

fun py_int :: "pyval \<Rightarrow> int" where
  "py_int (Num (PyInt n)) = n"
| "py_int (Num (PyFloat x)) = int_of_float x"
| "py_int (Obj n) = n"

text \<open>\<^verbatim>\<open>round(x)\<close> rounds to the nearest integer, a tie to the even one.\<close>

definition py_round :: "rat \<Rightarrow> int" where
  "py_round x =
     (let f = \<lfloor>x\<rfloor>; d = x - of_int f
      in if d < 1 / 2 then f else if 1 / 2 < d then f + 1 else if even f then f else f + 1)"

text \<open>
  Rounding to binary64. \<open>ilog2 x\<close> is the exponent of a non-zero \<open>x\<close>, the integer
  \<open>e\<close> with \<open>2 ^ e \<le> |x| < 2 ^ (e + 1)\<close>, computed from the bit lengths of numerator
  and denominator; the numbers with this exponent are 2 to the \<open>e - 52\<close> apart, and
  below exponent \<open>-1022\<close> (the subnormal numbers) as at \<open>-1022\<close>.
\<close>

definition ilog2 :: "rat \<Rightarrow> int" where
  "ilog2 x =
     (let (p, q) = quotient_of \<bar>x\<bar>; d = bitlen p - bitlen q
      in if 2 powi d \<le> \<bar>x\<bar> then d else d - 1)"

definition fl :: "rat \<Rightarrow> rat" where
  "fl x =
     (if x = 0 then 0
      else let u = 2 powi (max (ilog2 x) (- 1022) - 52)
           in of_int (py_round (x / u)) * u)"

text \<open>
  The value of a number, as comparisons read it, and the float that arithmetic with a
  float converts it to (an \<open>int\<close> is rounded to the nearest float).
\<close>

fun num_value :: "pynum \<Rightarrow> rat" where
  "num_value (PyInt n) = of_int n"
| "num_value (PyFloat x) = x"

fun py_float :: "pynum \<Rightarrow> rat" where
  "py_float (PyInt n) = fl (of_int n)"
| "py_float (PyFloat x) = x"

text \<open>
  \<^verbatim>\<open>round(x, 3)\<close> on a float: the float nearest to the decimal with three places
  nearest to \<open>x\<close> (a tie to the even last place).
\<close>

definition py_round3 :: "rat \<Rightarrow> rat" where
  "py_round3 x = fl (of_int (py_round (x * 1000)) / 1000)"

subsection \<open>The pixel buffer\<close>

text \<open>\<^verbatim>\<open>int(31.0 * brightness) & 0b11111\<close>, as \<open>set_pixel\<close> and \<open>set_brightness\<close> compute it.\<close>

definition quantize :: "pynum \<Rightarrow> int" where
  "quantize brightness = int_of_float (fl (31 * py_float brightness)) AND 31"

text \<open>
  \<open>set_pixel\<close>: with no brightness the stored one is read from \<^verbatim>\<open>pixels[x][3]\<close>. Then
  the new list is built (allocated at \<open>next_addr\<close>) and bound to slot \<open>x\<close>; the
  subscript assignment is what raises for an index out of range, after the allocation.
\<close>

definition set_pixel ::
  "int \<Rightarrow> pyval \<Rightarrow> pyval \<Rightarrow> pyval \<Rightarrow> pynum option \<Rightarrow> driver \<Rightarrow> outcome \<times> driver" where
  "set_pixel x r g b brightness s =
     (case (case brightness of
              None \<Rightarrow>
                (case py_index (pixels s) x of
                   None \<Rightarrow> None
                 | Some k \<Rightarrow>
                     (if 3 < length (heap s (pixels s ! k))
                      then Some (heap s (pixels s ! k) ! 3) else None))
            | Some f \<Rightarrow> Some (quantize f)) of
        None \<Rightarrow> (Raised IndexError, s)
      | Some q \<Rightarrow>
          (let a = next_addr s;
               s1 = s\<lparr>heap := (heap s)(a := [py_int r AND 255, py_int g AND 255, py_int b AND 255, q]),
                      next_addr := Suc a\<rparr>
           in case py_index (pixels s1) x of
                None \<Rightarrow> (Raised IndexError, s1)
              | Some k \<Rightarrow> (Returned, s1\<lparr>pixels := (pixels s1)[k := a]\<rparr>)))"

text \<open>
  \<open>get_pixel\<close>: \<^verbatim>\<open>r, g, b, brightness = pixels[x]\<close> raises IndexError for an index out
  of range and ValueError when the list does not have four elements. The stored
  brightness, an \<open>int\<close>, is converted to a float and divided by \<open>31.0\<close>.
\<close>

definition get_pixel :: "int \<Rightarrow> driver \<Rightarrow> error + (int \<times> int \<times> int \<times> rat)" where
  "get_pixel x s =
     (case py_index (pixels s) x of
        None \<Rightarrow> Inl IndexError
      | Some k \<Rightarrow>
          (case heap s (pixels s ! k) of
             [r, g, b, brightness] \<Rightarrow>
               Inr (r, g, b, py_round3 (fl (py_float (PyInt brightness) / 31)))
           | _ \<Rightarrow> Inl ValueError))"

text \<open>A \<^verbatim>\<open>for\<close> loop over a list: the body runs on each element until one raises.\<close>

fun for_each :: "'a list \<Rightarrow> ('a \<Rightarrow> driver \<Rightarrow> outcome \<times> driver) \<Rightarrow> driver \<Rightarrow> outcome \<times> driver" where
  "for_each [] body s = (Returned, s)"
| "for_each (x # xs) body s =
     (case body x s of
        (Returned, s') \<Rightarrow> for_each xs body s'
      | (Raised e, s') \<Rightarrow> (Raised e, s'))"

text \<open>\<^verbatim>\<open>pixels[x][3] = v\<close>: the list in slot \<open>x\<close> is changed in place.\<close>

definition store_brightness :: "int \<Rightarrow> nat \<Rightarrow> driver \<Rightarrow> outcome \<times> driver" where
  "store_brightness v x s =
     (if x < length (pixels s) \<and> 3 < length (heap s (pixels s ! x))
      then (Returned, s\<lparr>heap := (heap s)(pixels s ! x := (heap s (pixels s ! x))[3 := v])\<rparr>)
      else (Raised IndexError, s))"

definition set_brightness :: "pynum \<Rightarrow> driver \<Rightarrow> outcome \<times> driver" where
  "set_brightness brightness s =
     (if num_value brightness < 0 \<or> 1 < num_value brightness then (Raised ValueError, s)
      else for_each [0..<NUM_PIXELS] (store_brightness (quantize brightness)) s)"

text \<open>
  \<^verbatim>\<open>pixels[x][0:3] = [0, 0, 0]\<close>: the first three elements of the list in slot \<open>x\<close>
  (fewer when the list is shorter) are replaced in place by three zeros.
\<close>

definition store_black :: "nat \<Rightarrow> driver \<Rightarrow> outcome \<times> driver" where
  "store_black x s =
     (if x < length (pixels s)
      then (Returned, s\<lparr>heap := (heap s)(pixels s ! x := [0, 0, 0] @ drop 3 (heap s (pixels s ! x)))\<rparr>)
      else (Raised IndexError, s))"

definition clear :: "driver \<Rightarrow> outcome \<times> driver" where
  "clear s = for_each [0..<NUM_PIXELS] store_black s"

subsection \<open>Well-formed states\<close>

text \<open>
  Eight slots, each bound to an allocated list of four elements. The initial state is
  well formed and every operation of the buffer keeps it so.
\<close>

definition well_formed :: "driver \<Rightarrow> bool" where
  "well_formed s \<longleftrightarrow>
     length (pixels s) = NUM_PIXELS \<and>
     list_all (\<lambda>a. a < next_addr s \<and> length (heap s a) = 4) (pixels s)"

text \<open>An environment in which no \<open>lgpio\<close> call fails.\<close>

definition no_failures :: "nat \<Rightarrow> bool" where
  "no_failures k = True"

subsection \<open>GPIO calls\<close>

definition emit :: "event \<Rightarrow> driver \<Rightarrow> driver" where
  "emit e s = s\<lparr>trace := trace s @ [e]\<rparr>"

text \<open>\<^verbatim>\<open>lgpio.gpio_write(_handle, pin, level)\<close> and \<^verbatim>\<open>time.sleep\<close>, its argument in nanoseconds.\<close>

definition gpio_write :: "nat \<Rightarrow> nat \<Rightarrow> driver \<Rightarrow> driver" where
  "gpio_write pin level s = emit (GpioWrite (handle s) pin level) s"

definition sleep :: "nat \<Rightarrow> driver \<Rightarrow> driver" where
  "sleep ns s = emit (Sleep ns) s"

text \<open>
  A call that may raise \<open>lgpio.error\<close>: the call is recorded and counted, and the
  environment decides its outcome.
\<close>

definition lgpio_call :: "event \<Rightarrow> driver \<Rightarrow> outcome \<times> driver" where
  "lgpio_call e s =
     (if lgpio_ok s (lgpio_calls s) then Returned else Raised LgpioError,
      (emit e s)\<lparr>lgpio_calls := Suc (lgpio_calls s)\<rparr>)"

definition gpio_claim_output :: "nat \<Rightarrow> driver \<Rightarrow> outcome \<times> driver" where
  "gpio_claim_output pin s = lgpio_call (ClaimOutput (handle s) pin) s"

definition gpio_free :: "nat \<Rightarrow> driver \<Rightarrow> outcome \<times> driver" where
  "gpio_free pin s = lgpio_call (Free (handle s) pin) s"

text \<open>
  \<open>_find_rp1_chip\<close>: the number of the first chip, in the order of the sorted sysfs
  paths, whose label contains \<^verbatim>\<open>pinctrl-rp1\<close>; chip 0 when there is none.
\<close>

fun find_rp1_chip :: "(nat \<times> string) list \<Rightarrow> nat" where
  "find_rp1_chip [] = 0"
| "find_rp1_chip ((n, label) # rest) =
     (if sublist ''pinctrl-rp1'' label then n else find_rp1_chip rest)"

text \<open>
  \<^verbatim>\<open>_handle = lgpio.gpiochip_open(chip)\<close>. The handle is an opaque number chosen by the
  library; the model numbers the handles in the order of the open calls.
\<close>

fun is_open :: "event \<Rightarrow> bool" where
  "is_open (ChipOpen c) = True"
| "is_open e = False"

definition gpiochip_open :: "nat \<Rightarrow> driver \<Rightarrow> driver" where
  "gpiochip_open chip s =
     (emit (ChipOpen chip) s)\<lparr>handle := Some (length (filter is_open (trace s)))\<rparr>"

subsection \<open>Bit-banging\<close>

text \<open>A \<^verbatim>\<open>for x in range(n)\<close> loop whose body does not read \<open>x\<close>.\<close>

fun repeat :: "nat \<Rightarrow> (driver \<Rightarrow> driver) \<Rightarrow> driver \<Rightarrow> driver" where
  "repeat 0 body s = s"
| "repeat (Suc n) body s = repeat n body (body s)"

text \<open>The body repeated by \<open>_sof\<close> and \<open>_eof\<close>: clock high, wait, clock low, wait.\<close>

definition clock_pulse :: "driver \<Rightarrow> driver" where
  "clock_pulse s = sleep 500 (gpio_write CLK 0 (sleep 500 (gpio_write CLK 1 s)))"

definition sof :: "driver \<Rightarrow> driver" where
  "sof s = repeat 32 clock_pulse (gpio_write DAT 0 s)"

definition eof :: "driver \<Rightarrow> driver" where
  "eof s = repeat 36 clock_pulse (gpio_write DAT 0 s)"

text \<open>
  \<open>_write_byte\<close>: eight rounds, each writing the data line from bit 7 of \<open>byte\<close>,
  raising the clock, shifting \<open>byte\<close> left by one and lowering the clock.
\<close>

fun write_byte_loop :: "nat \<Rightarrow> int \<Rightarrow> driver \<Rightarrow> driver" where
  "write_byte_loop 0 byte s = s"
| "write_byte_loop (Suc n) byte s =
     (let s1 = gpio_write DAT (if byte AND 128 \<noteq> 0 then 1 else 0) s;
          s2 = gpio_write CLK 1 s1;
          s3 = sleep 500 s2;
          byte' = push_bit 1 byte;
          s4 = gpio_write CLK 0 s3;
          s5 = sleep 500 s4
      in write_byte_loop n byte' s5)"

definition write_byte :: "int \<Rightarrow> driver \<Rightarrow> driver" where
  "write_byte byte s = write_byte_loop 8 byte s"

subsection \<open>Rendering\<close>

text \<open>
  The \<^verbatim>\<open>try\<close> block of \<open>show\<close> for one pin: when the claim raises \<open>lgpio.error\<close>
  the handler frees the pin and claims it again; what the handler raises propagates.
\<close>

definition claim_or_retry :: "nat \<Rightarrow> driver \<Rightarrow> outcome \<times> driver" where
  "claim_or_retry pin s =
     (case gpio_claim_output pin s of
        (Raised LgpioError, s1) \<Rightarrow>
          (case gpio_free pin s1 of
             (Returned, s2) \<Rightarrow> gpio_claim_output pin s2
           | (Raised e, s2) \<Rightarrow> (Raised e, s2))
      | r \<Rightarrow> r)"

text \<open>The body of \<^verbatim>\<open>if not _gpio_setup:\<close>.\<close>

definition lazy_setup :: "driver \<Rightarrow> outcome \<times> driver" where
  "lazy_setup s =
     (let s1 = gpiochip_open (find_rp1_chip (gpiochips s)) s
      in case claim_or_retry DAT s1 of
           (Raised e, s2) \<Rightarrow> (Raised e, s2)
         | (Returned, s2) \<Rightarrow>
             (case claim_or_retry CLK s2 of
                (Raised e, s3) \<Rightarrow> (Raised e, s3)
              | (Returned, s3) \<Rightarrow> (Returned, (emit AtexitRegister s3)\<lparr>gpio_setup := True\<rparr>)))"

text \<open>
  The body of \<^verbatim>\<open>for pixel in pixels\<close>: the unpacking raises ValueError unless the
  list has four elements.
\<close>

definition show_pixel :: "addr \<Rightarrow> driver \<Rightarrow> outcome \<times> driver" where
  "show_pixel a s =
     (case heap s a of
        [r, g, b, brightness] \<Rightarrow>
          (Returned, write_byte r (write_byte g (write_byte b (write_byte (224 OR brightness) s))))
      | _ \<Rightarrow> (Raised ValueError, s))"

text \<open>\<open>show\<close> (the name is an Isar keyword, hence the prime).\<close>

definition show' :: "driver \<Rightarrow> outcome \<times> driver" where
  "show' s =
     (case (if \<not> gpio_setup s then lazy_setup s else (Returned, s)) of
        (Raised e, s1) \<Rightarrow> (Raised e, s1)
      | (Returned, s1) \<Rightarrow>
          (case for_each (pixels s1) show_pixel (sof s1) of
             (Raised e, s2) \<Rightarrow> (Raised e, s2)
           | (Returned, s2) \<Rightarrow> (Returned, eof s2)))"

subsection \<open>The wire\<close>

text \<open>
  What the claims say about a transmission, as event lists: a clock pulse, the five
  events of one bit, the eight bits of a byte from bit 7 down to bit 0, the four bytes
  of a pixel, and the start and end frames.
\<close>

definition pulse :: "nat option \<Rightarrow> event list" where
  "pulse h = [GpioWrite h CLK 1, Sleep 500, GpioWrite h CLK 0, Sleep 500]"

definition bit_events :: "nat option \<Rightarrow> int \<Rightarrow> nat \<Rightarrow> event list" where
  "bit_events h byte k = GpioWrite h DAT (if bit byte k then 1 else 0) # pulse h"

definition byte_events :: "nat option \<Rightarrow> int \<Rightarrow> event list" where
  "byte_events h byte = concat (map (bit_events h byte) [7, 6, 5, 4, 3, 2, 1, 0])"

definition pixel_events :: "nat option \<Rightarrow> int list \<Rightarrow> event list" where
  "pixel_events h px =
     byte_events h (224 OR px ! 3) @ byte_events h (px ! 2) @ byte_events h (px ! 1) @
     byte_events h (px ! 0)"

definition frame_events :: "nat option \<Rightarrow> int list list \<Rightarrow> event list" where
  "frame_events h buf =
     (GpioWrite h DAT 0 # concat (replicate 32 (pulse h))) @
     concat (map (pixel_events h) buf) @
     (GpioWrite h DAT 0 # concat (replicate 36 (pulse h)))"

text \<open>
  An observer of the two lines. \<open>clock_pulses c\<close> counts the completed pulses of the
  clock line (a write of 0 while it is high), starting from level \<open>c\<close>;
  \<open>sample d c\<close> lists the level of the data line at each rising edge of the clock, as
  the LED chain latches it.
\<close>

fun clock_pulses :: "nat \<Rightarrow> event list \<Rightarrow> nat" where
  "clock_pulses c [] = 0"
| "clock_pulses c (GpioWrite h pin v # es) =
     (if pin = CLK then (if c \<noteq> 0 \<and> v = 0 then 1 else 0) + clock_pulses v es
      else clock_pulses c es)"
| "clock_pulses c (e # es) = clock_pulses c es"

fun sample :: "nat \<Rightarrow> nat \<Rightarrow> event list \<Rightarrow> nat list" where
  "sample d c [] = []"
| "sample d c (GpioWrite h pin v # es) =
     (if pin = DAT then sample v c es
      else if pin = CLK then (if c = 0 \<and> v \<noteq> 0 then d # sample d v es else sample d v es)
      else sample d c es)"
| "sample d c (e # es) = sample d c es"

text \<open>The bytes that a receiver assembles from the sampled bits, first bit highest.\<close>

fun bytes_of_bits :: "nat list \<Rightarrow> int list" where
  "bytes_of_bits (b7 # b6 # b5 # b4 # b3 # b2 # b1 # b0 # rest) =
     (128 * int b7 + 64 * int b6 + 32 * int b5 + 16 * int b4 + 8 * int b3 + 4 * int b2 +
      2 * int b1 + int b0) # bytes_of_bits rest"
| "bytes_of_bits bits = []"

definition wire_bytes :: "event list \<Rightarrow> int list" where
  "wire_bytes es = bytes_of_bits (sample 0 0 es)"

text \<open>The events of the set-up: everything but writes and sleeps.\<close>

fun is_register :: "event \<Rightarrow> bool" where
  "is_register AtexitRegister = True"
| "is_register e = False"

fun is_claim :: "nat \<Rightarrow> event \<Rightarrow> bool" where
  "is_claim pin (ClaimOutput h p) = (p = pin)"
| "is_claim pin e = False"

fun is_write :: "event \<Rightarrow> bool" where
  "is_write (GpioWrite h pin v) = True"
| "is_write e = False"

text \<open>The events recorded between two states.\<close>

definition emitted :: "driver \<Rightarrow> driver \<Rightarrow> event list" where
  "emitted s s' = drop (length (trace s)) (trace s')"

text \<open>
  The \<open>try\<close> block for one pin in closed form, by the outcomes of the calls numbered
  \<open>n\<close>, \<open>n + 1\<close> and \<open>n + 2\<close>: its events, the number of calls it makes and its
  outcome.
\<close>

definition claim_events :: "(nat \<Rightarrow> bool) \<Rightarrow> nat \<Rightarrow> nat option \<Rightarrow> nat \<Rightarrow> event list" where
  "claim_events ok n h pin =
     (if ok n then [ClaimOutput h pin]
      else if ok (Suc n) then [ClaimOutput h pin, Free h pin, ClaimOutput h pin]
      else [ClaimOutput h pin, Free h pin])"

definition claim_calls :: "(nat \<Rightarrow> bool) \<Rightarrow> nat \<Rightarrow> nat" where
  "claim_calls ok n = (if ok n then 1 else if ok (Suc n) then 3 else 2)"

definition claim_outcome :: "(nat \<Rightarrow> bool) \<Rightarrow> nat \<Rightarrow> outcome" where
  "claim_outcome ok n =
     (if ok n \<or> (ok (Suc n) \<and> ok (Suc (Suc n))) then Returned else Raised LgpioError)"

text \<open>An environment in which exactly the calls numbered in \<open>ks\<close> raise.\<close>

definition ok_except :: "nat list \<Rightarrow> nat \<Rightarrow> bool" where
  "ok_except ks k \<longleftrightarrow> k \<notin> set ks"

text \<open>A sample sysfs listing of a Pi 5: the header pins are on chip 4.\<close>

definition pi5_chips :: "(nat \<times> string) list" where
  "pi5_chips = [(0, ''pinctrl-bcm2712''), (4, ''pinctrl-rp1'')]"

subsection \<open>The claim as the specification words it\<close>

text \<open>
  The specification quantizes a brightness fraction by \<^verbatim>\<open>round(31 * brightness)\<close>
  masked to five bits. This definition follows its words, rounding the product that the
  driver truncates; \<open>quantize\<close> above follows
  the source.
\<close>

definition spec_quantize :: "pynum \<Rightarrow> int" where
  "spec_quantize brightness = py_round (fl (31 * py_float brightness)) AND 31"

section \<open>Properties of the pixel buffer\<close>

subsection \<open>Auxiliary facts\<close>

lemma wf_init: "well_formed (init ok chips)"
  by (simp add: well_formed_def init_def NUM_PIXELS_def list_all_iff)

lemma py_index_valid: "0 \<le> i \<Longrightarrow> i < int (length xs) \<Longrightarrow> py_index xs i = Some (nat i)"
  by (simp add: py_index_def Let_def)

lemma py_index_invalid: "i < - int (length xs) \<or> int (length xs) \<le> i \<Longrightarrow> py_index xs i = None"
  by (auto simp add: py_index_def Let_def)

lemma quantize_bounds: "0 \<le> quantize f" "quantize f < 32"
proof -
  have "int_of_float (fl (31 * py_float f)) AND 31 \<le> 31"
    by (rule AND_upper2) simp
  then show "quantize f < 32" by (simp add: quantize_def)
  show "0 \<le> quantize f" by (simp add: quantize_def)
qed

lemma fl_small_values:
  "fl 0 = 0" "fl 1 = 1" "fl 2 = 2" "fl 3 = 3" "fl 4 = 4" "fl 5 = 5" "fl 6 = 6" "fl 7 = 7"
  "fl 8 = 8" "fl 9 = 9" "fl 10 = 10" "fl 11 = 11" "fl 12 = 12" "fl 13 = 13" "fl 14 = 14"
  "fl 15 = 15" "fl 16 = 16" "fl 17 = 17" "fl 18 = 18" "fl 19 = 19" "fl 20 = 20" "fl 21 = 21"
  "fl 22 = 22" "fl 23 = 23" "fl 24 = 24" "fl 25 = 25" "fl 26 = 26" "fl 27 = 27" "fl 28 = 28"
  "fl 29 = 29" "fl 30 = 30" "fl 31 = 31"
  by code_simp+

lemma fl_small:
  assumes "0 \<le> q" "q < 32"
  shows "fl (of_int q) = of_int q"
proof -
  have "q = 0 \<or> q = 1 \<or> q = 2 \<or> q = 3 \<or> q = 4 \<or> q = 5 \<or> q = 6 \<or> q = 7 \<or> q = 8 \<or>
      q = 9 \<or> q = 10 \<or> q = 11 \<or> q = 12 \<or> q = 13 \<or> q = 14 \<or> q = 15 \<or> q = 16 \<or> q = 17 \<or>
      q = 18 \<or> q = 19 \<or> q = 20 \<or> q = 21 \<or> q = 22 \<or> q = 23 \<or> q = 24 \<or> q = 25 \<or> q = 26 \<or>
      q = 27 \<or> q = 28 \<or> q = 29 \<or> q = 30 \<or> q = 31"
    using assms by arith
  then show ?thesis
    by (elim disjE) (simp_all add: fl_small_values)
qed

lemma wf_slot:
  "well_formed s \<Longrightarrow> k < NUM_PIXELS \<Longrightarrow> pixels s ! k < next_addr s \<and> length (heap s (pixels s ! k)) = 4"
  by (simp add: well_formed_def list_all_length)

lemma set_pixel_valid:
  assumes "well_formed s" "0 \<le> i" "i < int NUM_PIXELS"
  shows "set_pixel i r g b br s =
           (Returned,
            s\<lparr>heap := (heap s)(next_addr s :=
                  [py_int r AND 255, py_int g AND 255, py_int b AND 255,
                   (case br of None \<Rightarrow> heap s (pixels s ! nat i) ! 3 | Some f \<Rightarrow> quantize f)]),
              next_addr := Suc (next_addr s),
              pixels := (pixels s)[nat i := next_addr s]\<rparr>)"
proof -
  have len: "length (pixels s) = NUM_PIXELS" using assms(1) by (simp add: well_formed_def)
  have idx: "py_index (pixels s) i = Some (nat i)"
    using assms len by (simp add: py_index_valid)
  have "nat i < NUM_PIXELS" using assms by simp
  then have four: "length (heap s (pixels s ! nat i)) = 4"
    using wf_slot [OF assms(1)] by simp
  show ?thesis
    by (cases br) (simp_all add: set_pixel_def idx four Let_def)
qed

lemma set_pixel_invalid:
  assumes "length (pixels s) = NUM_PIXELS" "i < - int NUM_PIXELS \<or> int NUM_PIXELS \<le> i"
  shows "fst (set_pixel i r g b br s) = Raised IndexError"
    and "pixels (snd (set_pixel i r g b br s)) = pixels s"
    and "a < next_addr s \<Longrightarrow> heap (snd (set_pixel i r g b br s)) a = heap s a"
proof -
  have idx: "py_index (pixels s) i = None"
    using assms by (simp add: py_index_invalid)
  show "fst (set_pixel i r g b br s) = Raised IndexError"
    by (cases br) (simp_all add: set_pixel_def idx Let_def)
  show "pixels (snd (set_pixel i r g b br s)) = pixels s"
    by (cases br) (simp_all add: set_pixel_def idx Let_def)
  show "a < next_addr s \<Longrightarrow> heap (snd (set_pixel i r g b br s)) a = heap s a"
    by (cases br) (simp_all add: set_pixel_def idx Let_def)
qed

lemma wf_set_pixel: "well_formed s \<Longrightarrow> well_formed (snd (set_pixel x r g b br s))"
  by (auto simp: set_pixel_def well_formed_def Let_def list_all_iff less_Suc_eq
           split: option.splits dest!: set_update_subset_insert [THEN subsetD])

lemma get_pixel_valid:
  assumes "length (pixels s) = NUM_PIXELS" "0 \<le> j" "j < int NUM_PIXELS"
    and "heap s (pixels s ! nat j) = [r, g, b, q]"
  shows "get_pixel j s = Inr (r, g, b, py_round3 (fl (fl (of_int q) / 31)))"
  using assms by (simp add: get_pixel_def py_index_valid)

lemma for_each_in_place:
  assumes "\<And>x t. x \<in> set xs \<Longrightarrow> pixels t = pixels s \<Longrightarrow>
             (\<forall>a\<in>set (pixels s). length (heap t a) = 4) \<Longrightarrow>
             body x t = (Returned, t\<lparr>heap := (heap t)(pixels t ! x := f (heap t (pixels t ! x)))\<rparr>)"
    and "\<And>l. f (f l) = f l"
    and "\<And>l. length l = 4 \<Longrightarrow> length (f l) = 4"
    and "\<forall>x\<in>set xs. x < length (pixels s)"
    and "\<forall>a\<in>set (pixels s). length (heap s a) = 4"
  shows "for_each xs body s =
           (Returned, s\<lparr>heap := \<lambda>a. if a \<in> (!) (pixels s) ` set xs then f (heap s a) else heap s a\<rparr>)"
  using assms
proof (induction xs arbitrary: s)
  case Nil
  then show ?case by simp
next
  case (Cons x xs)
  let ?p = "pixels s ! x"
  let ?s1 = "s\<lparr>heap := (heap s)(?p := f (heap s ?p))\<rparr>"
  have step: "body x s = (Returned, ?s1)"
    by (rule Cons.prems(1)) (simp_all add: Cons.prems(5))
  have four: "\<forall>a\<in>set (pixels s). length (heap ?s1 a) = 4"
    using Cons.prems(3,5) by simp
  have rest: "for_each xs body ?s1 =
      (Returned, ?s1\<lparr>heap := \<lambda>a. if a \<in> (!) (pixels ?s1) ` set xs then f (heap ?s1 a) else heap ?s1 a\<rparr>)"
  proof (rule Cons.IH)
    fix y and t :: driver
    assume "y \<in> set xs" "pixels t = pixels ?s1" "\<forall>a\<in>set (pixels ?s1). length (heap t a) = 4"
    then have "y \<in> set (x # xs)" "pixels t = pixels s" "\<forall>a\<in>set (pixels s). length (heap t a) = 4"
      by simp_all
    then show "body y t = (Returned, t\<lparr>heap := (heap t)(pixels t ! y := f (heap t (pixels t ! y)))\<rparr>)"
      by (rule Cons.prems(1))
  next
    show "\<And>l. f (f l) = f l" by (rule Cons.prems(2))
    show "\<And>l. length l = 4 \<Longrightarrow> length (f l) = 4" by (rule Cons.prems(3))
    show "\<forall>x\<in>set xs. x < length (pixels ?s1)" using Cons.prems(4) by simp
    show "\<forall>a\<in>set (pixels ?s1). length (heap ?s1 a) = 4" using four by simp
  qed
  have heaps: "(\<lambda>a. if a \<in> (!) (pixels ?s1) ` set xs then f (heap ?s1 a) else heap ?s1 a) =
               (\<lambda>a. if a \<in> (!) (pixels s) ` set (x # xs) then f (heap s a) else heap s a)"
    by (rule ext) (auto simp: Cons.prems(2))
  have "for_each (x # xs) body s = for_each xs body ?s1"
    using step by simp
  also have "\<dots> = (Returned, s\<lparr>heap := \<lambda>a. if a \<in> (!) (pixels ?s1) ` set xs then f (heap ?s1 a) else heap ?s1 a\<rparr>)"
    unfolding rest by simp
  finally show ?case
    unfolding heaps .
qed

lemma buffer_in_place:
  assumes "length (pixels s) = n"
  shows "buffer (s\<lparr>heap := \<lambda>a. if a \<in> (!) (pixels s) ` set [0..<n] then f (heap s a) else heap s a\<rparr>)
           = map f (buffer s)"
proof -
  have "a \<in> set (pixels s) \<Longrightarrow> a \<in> (!) (pixels s) ` set [0..<n]" for a
    using assms by (auto simp: in_set_conv_nth)
  then show ?thesis by (simp add: buffer_def del: set_upt)
qed

lemma wf_four: "well_formed s \<Longrightarrow> \<forall>a\<in>set (pixels s). length (heap s a) = 4"
  by (simp add: well_formed_def list_all_iff)

lemma clear_wf:
  assumes "well_formed s"
  shows "clear s = (Returned,
           s\<lparr>heap := \<lambda>a. if a \<in> (!) (pixels s) ` set [0..<NUM_PIXELS]
                          then [0, 0, 0] @ drop 3 (heap s a) else heap s a\<rparr>)"
  unfolding clear_def
proof (rule for_each_in_place)
  show "\<forall>x\<in>set [0..<NUM_PIXELS]. x < length (pixels s)"
    using assms by (simp add: well_formed_def)
  show "\<forall>a\<in>set (pixels s). length (heap s a) = 4"
    using assms by (rule wf_four)
next
  fix x and t :: driver
  assume "x \<in> set [0..<NUM_PIXELS]" "pixels t = pixels s"
  then show "store_black x t =
      (Returned, t\<lparr>heap := (heap t)(pixels t ! x := [0, 0, 0] @ drop 3 (heap t (pixels t ! x)))\<rparr>)"
    using assms by (simp add: store_black_def well_formed_def)
qed simp_all

lemma set_brightness_wf:
  assumes "well_formed s" "0 \<le> num_value f" "num_value f \<le> 1"
  shows "set_brightness f s = (Returned,
           s\<lparr>heap := \<lambda>a. if a \<in> (!) (pixels s) ` set [0..<NUM_PIXELS]
                          then (heap s a)[3 := quantize f] else heap s a\<rparr>)"
proof -
  have "for_each [0..<NUM_PIXELS] (store_brightness (quantize f)) s = (Returned,
           s\<lparr>heap := \<lambda>a. if a \<in> (!) (pixels s) ` set [0..<NUM_PIXELS]
                          then (heap s a)[3 := quantize f] else heap s a\<rparr>)"
  proof (rule for_each_in_place)
    show "\<forall>x\<in>set [0..<NUM_PIXELS]. x < length (pixels s)"
      using assms by (simp add: well_formed_def)
    show "\<forall>a\<in>set (pixels s). length (heap s a) = 4"
      using assms(1) by (rule wf_four)
  next
    fix x and t :: driver
    assume "x \<in> set [0..<NUM_PIXELS]" "pixels t = pixels s"
       "\<forall>a\<in>set (pixels s). length (heap t a) = 4"
    then show "store_brightness (quantize f) x t =
        (Returned, t\<lparr>heap := (heap t)(pixels t ! x := (heap t (pixels t ! x))[3 := quantize f])\<rparr>)"
      using assms(1) by (simp add: store_brightness_def well_formed_def)
  qed simp_all
  then show ?thesis using assms(2,3) by (simp add: set_brightness_def)
qed

lemma wf_heap_update:
  "well_formed s \<Longrightarrow> (\<And>l. length l = 4 \<Longrightarrow> length (f l) = 4) \<Longrightarrow>
   well_formed (s\<lparr>heap := \<lambda>a. if a \<in> A then f (heap s a) else heap s a\<rparr>)"
  by (simp add: well_formed_def list_all_iff)

lemma wf_clear: "well_formed s \<Longrightarrow> well_formed (snd (clear s))"
  unfolding clear_wf snd_conv
  by (rule wf_heap_update) simp_all

lemma wf_set_brightness:
  assumes "well_formed s"
  shows "well_formed (snd (set_brightness f s))"
proof (cases "0 \<le> num_value f \<and> num_value f \<le> 1")
  case True
  then have eq: "set_brightness f s = (Returned,
           s\<lparr>heap := \<lambda>a. if a \<in> (!) (pixels s) ` set [0..<NUM_PIXELS]
                          then (heap s a)[3 := quantize f] else heap s a\<rparr>)"
    using assms by (simp only: set_brightness_wf)
  show ?thesis
    unfolding eq snd_conv using assms by (rule wf_heap_update) simp
next
  case False
  then show ?thesis using assms by (auto simp: set_brightness_def)
qed

lemma round3_values:
  "py_round3 (fl (15 / 31)) = fl (121 / 250)"
  "py_round3 (fl (16 / 31)) = fl (129 / 250)"
  "py_round3 (fl (7 / 31)) = fl (113 / 500)"
  "py_round3 (fl (31 / 31)) = 1"
  "fl (121 / 250) \<noteq> fl (129 / 250)"
  by code_simp+

lemma quantize_values:
  "quantize (PyFloat (1 / 2)) = 15"
  "quantize (PyFloat 1) = 31"
  "spec_quantize (PyFloat (1 / 2)) = 16"
  by code_simp+

text \<open>
  The rounding of the product matters: at the float nearest to 16/31 the product
  \<open>31.0 * brightness\<close> is the float 16.0, where the exact product is below 16.
\<close>

lemma quantize_at_16_31:
  "quantize (PyFloat (fl (16 / 31))) = 16" "\<lfloor>31 * fl (16 / 31)\<rfloor> = 15"
  by code_simp+

lemma init_sel:
  "pixels (init ok chips) = [0, 0, 0, 0, 0, 0, 0, 0]"
  "heap (init ok chips) = (\<lambda>_. [])(0 := [0, 0, 0, BRIGHTNESS])"
  "next_addr (init ok chips) = 1"
  by (simp_all add: init_def NUM_PIXELS_def eval_nat_numeral)

lemmas buffer_eval = set_pixel_def get_pixel_def py_index_def Let_def init_sel NUM_PIXELS_def
  BRIGHTNESS_def buffer_def round3_values quantize_values

subsection \<open>Writing and reading back a pixel\<close>

text \<open>
  Claim C1, as the code has it. For every valid index \<open>i\<close> (\<open>0 \<le> i < N\<close>), any
  integer-convertible colour inputs \<open>r\<close>, \<open>g\<close>, \<open>b\<close> and any brightness fraction \<open>br\<close>
  in \<open>[0, 1]\<close>, \<open>set_pixel(i, r, g, b, br)\<close> returns and \<open>get_pixel(i)\<close> then returns
  \<open>(int(r) & 0xFF, int(g) & 0xFF, int(b) & 0xFF, round(q / 31, 3))\<close>, where the stored
  brightness \<open>q\<close> is \<open>int(31.0 * br)\<close>, the floating-point product truncated towards
  zero (not rounded to the nearest integer), masked to five bits.
\<close>

theorem set_get_pixel:
  assumes "well_formed s" "0 \<le> i" "i < int NUM_PIXELS"
    and "0 \<le> num_value br" "num_value br \<le> 1"
  shows "fst (set_pixel i r g b (Some br) s) = Returned \<and>
         get_pixel i (snd (set_pixel i r g b (Some br) s)) =
           Inr (py_int r AND 255, py_int g AND 255, py_int b AND 255,
                py_round3 (fl (of_int (int_of_float (fl (31 * py_float br)) AND 31) / 31)))"
proof -
  have len: "length (pixels s) = NUM_PIXELS" using assms(1) by (simp add: well_formed_def)
  have n: "nat i < length (pixels s)" using assms len by simp
  have q: "int_of_float (fl (31 * py_float br)) AND 31 = quantize br"
    by (simp add: quantize_def)
  have exact: "fl (of_int (quantize br)) = of_int (quantize br)"
    by (rule fl_small) (rule quantize_bounds)+
  show ?thesis
    unfolding set_pixel_valid [OF assms(1-3)] q
    using n len assms(2,3) by (simp add: get_pixel_def py_index_valid exact)
qed

theorem set_get_pixel_witness:
  "well_formed (init no_failures []) \<and> (0::int) \<le> 3 \<and> 3 < int NUM_PIXELS \<and>
   0 \<le> num_value (PyFloat (1 / 2)) \<and> num_value (PyFloat (1 / 2)) \<le> 1 \<and>
   fst (set_pixel 3 (Num (PyInt 300)) (Num (PyFloat (- (3 / 2)))) (Obj 20) (Some (PyFloat (1 / 2))) (init no_failures []))
     = Returned \<and>
   get_pixel 3 (snd (set_pixel 3 (Num (PyInt 300)) (Num (PyFloat (- (3 / 2)))) (Obj 20)
       (Some (PyFloat (1 / 2))) (init no_failures []))) =
     Inr (44, 255, 20, fl (121 / 250))"
proof -
  have v: "int_of_float (fl (31 * py_float (PyFloat (1 / 2)))) AND 31 = 15"
    "int_of_float (- (3 / 2)) = - 1"
    by code_simp+
  have h: "well_formed (init no_failures [])" "(0::int) \<le> 3" "3 < int NUM_PIXELS"
    "0 \<le> num_value (PyFloat (1 / 2))" "num_value (PyFloat (1 / 2)) \<le> 1"
    by (simp_all add: wf_init NUM_PIXELS_def)
  show ?thesis
    using set_get_pixel [OF h, of "Num (PyInt 300)" "Num (PyFloat (- (3 / 2)))" "Obj 20"] h
    unfolding v by (simp add: round3_values v)
qed

text \<open>
  Claim C1 as the specification words it, with \<open>q = round(31 * br)\<close>, fails at
  \<open>br = 0.5\<close>: the product is the float 15.5, the driver stores \<open>int(15.5) = 15\<close> and
  reports 0.484, where rounding would store 16 and report 0.516.
\<close>

theorem set_get_pixel_rounding_counterexample:
  "get_pixel 0 (snd (set_pixel 0 (Num (PyInt 10)) (Num (PyInt 20)) (Num (PyInt 30)) (Some (PyFloat (1 / 2))) (init no_failures []))) =
     Inr (10, 20, 30, fl (121 / 250)) \<and>
   py_round3 (fl (of_int (spec_quantize (PyFloat (1 / 2))) / 31)) = fl (129 / 250) \<and>
   get_pixel 0 (snd (set_pixel 0 (Num (PyInt 10)) (Num (PyInt 20)) (Num (PyInt 30)) (Some (PyFloat (1 / 2))) (init no_failures []))) \<noteq>
     Inr (py_int (Num (PyInt 10)) AND 255, py_int (Num (PyInt 20)) AND 255,
          py_int (Num (PyInt 30)) AND 255,
          py_round3 (fl (of_int (spec_quantize (PyFloat (1 / 2))) / 31)))"
  by (simp add: buffer_eval fl_small_values)

subsection \<open>An index out of range\<close>

text \<open>
  Claim C2, as the code has it. For every index \<open>x\<close> with \<open>x < -N\<close> or \<open>N \<le> x\<close>,
  \<open>set_pixel(x, r, g, b, brightness?)\<close> raises IndexError and leaves the pixel buffer
  unchanged; it never succeeds for such an index.
\<close>

theorem set_pixel_out_of_range:
  assumes "well_formed s" "x < - int NUM_PIXELS \<or> int NUM_PIXELS \<le> x"
  shows "fst (set_pixel x r g b br s) = Raised IndexError \<and>
         buffer (snd (set_pixel x r g b br s)) = buffer s"
proof -
  have len: "length (pixels s) = NUM_PIXELS" using assms(1) by (simp add: well_formed_def)
  have "\<forall>a\<in>set (pixels s). a < next_addr s" using assms(1) by (simp add: well_formed_def list_all_iff)
  then have "map (heap (snd (set_pixel x r g b br s))) (pixels s) = map (heap s) (pixels s)"
    using set_pixel_invalid(3) [OF len assms(2)] by simp
  then show ?thesis
    using set_pixel_invalid(1,2) [OF len assms(2)] by (simp add: buffer_def)
qed

theorem set_pixel_out_of_range_witness:
  "well_formed (init no_failures []) \<and> (8 < - int NUM_PIXELS \<or> int NUM_PIXELS \<le> 8) \<and>
   fst (set_pixel 8 (Num (PyInt 10)) (Num (PyInt 20)) (Num (PyInt 30)) (Some (PyFloat 1)) (init no_failures [])) = Raised IndexError \<and>
   buffer (snd (set_pixel 8 (Num (PyInt 10)) (Num (PyInt 20)) (Num (PyInt 30)) (Some (PyFloat 1)) (init no_failures []))) =
     [ [0, 0, 0, 7], [0, 0, 0, 7], [0, 0, 0, 7], [0, 0, 0, 7], [0, 0, 0, 7], [0, 0, 0, 7],
       [0, 0, 0, 7], [0, 0, 0, 7] ]"
proof -
  have h: "well_formed (init no_failures [])" "8 < - int NUM_PIXELS \<or> int NUM_PIXELS \<le> 8"
    by (simp_all add: wf_init NUM_PIXELS_def)
  show ?thesis
    using set_pixel_out_of_range [OF h, of "Num (PyInt 10)" "Num (PyInt 20)" "Num (PyInt 30)"
        "Some (PyFloat 1)"] h
    by (simp add: buffer_def init_sel NUM_PIXELS_def BRIGHTNESS_def)
qed

text \<open>
  Claim C2 as the specification words it, for every negative index, fails at index
  \<open>-1\<close>: Python counts a negative subscript from the end of the list, so the call
  returns and changes the last pixel.
\<close>

theorem set_pixel_negative_index_counterexample:
  "fst (set_pixel (- 1) (Num (PyInt 10)) (Num (PyInt 20)) (Num (PyInt 30)) None (init no_failures [])) = Returned \<and>
   fst (set_pixel (- 1) (Num (PyInt 10)) (Num (PyInt 20)) (Num (PyInt 30)) None (init no_failures [])) \<noteq> Raised IndexError \<and>
   get_pixel 7 (init no_failures []) = Inr (0, 0, 0, fl (113 / 500)) \<and>
   get_pixel 7 (snd (set_pixel (- 1) (Num (PyInt 10)) (Num (PyInt 20)) (Num (PyInt 30)) None (init no_failures []))) = Inr (10, 20, 30, fl (113 / 500)) \<and>
   buffer (snd (set_pixel (- 1) (Num (PyInt 10)) (Num (PyInt 20)) (Num (PyInt 30)) None (init no_failures []))) \<noteq> buffer (init no_failures [])"
  by (simp add: buffer_eval fl_small_values eval_nat_numeral)

subsection \<open>Setting the brightness of all pixels\<close>

text \<open>
  Claim C3, as the code has it. For every fraction \<open>f\<close> outside \<open>[0, 1]\<close>,
  \<open>set_brightness(f)\<close> raises ValueError and leaves the state, so every pixel, as it
  was. For every \<open>f\<close> in \<open>[0, 1]\<close> it returns, and every one of the \<open>N\<close> pixels then
  has \<open>int(31.0 * f) & 0b11111\<close>, the floating-point product truncated towards zero
  (not rounded to the nearest integer) and masked to five bits, as its stored
  brightness, and its \<open>r\<close>, \<open>g\<close>, \<open>b\<close> as before.
\<close>

theorem set_brightness_policy:
  "(num_value f < 0 \<or> 1 < num_value f \<longrightarrow> set_brightness f s = (Raised ValueError, s)) \<and>
   (well_formed s \<and> 0 \<le> num_value f \<and> num_value f \<le> 1 \<longrightarrow>
      fst (set_brightness f s) = Returned \<and>
      buffer (snd (set_brightness f s)) =
        map (\<lambda>px. px[3 := int_of_float (fl (31 * py_float f)) AND 31]) (buffer s))"
proof (intro conjI impI)
  assume "num_value f < 0 \<or> 1 < num_value f"
  then show "set_brightness f s = (Raised ValueError, s)"
    by (simp add: set_brightness_def)
next
  assume a: "well_formed s \<and> 0 \<le> num_value f \<and> num_value f \<le> 1"
  then show "fst (set_brightness f s) = Returned"
    by (simp add: set_brightness_wf)
  have len: "length (pixels s) = NUM_PIXELS" using a by (simp add: well_formed_def)
  have q: "int_of_float (fl (31 * py_float f)) AND 31 = quantize f"
    by (simp add: quantize_def)
  have eq: "set_brightness f s = (Returned,
           s\<lparr>heap := \<lambda>a. if a \<in> (!) (pixels s) ` set [0..<NUM_PIXELS]
                          then (heap s a)[3 := quantize f] else heap s a\<rparr>)"
    using a by (simp only: set_brightness_wf)
  show "buffer (snd (set_brightness f s)) =
      map (\<lambda>px. px[3 := int_of_float (fl (31 * py_float f)) AND 31]) (buffer s)"
    unfolding q eq snd_conv by (rule buffer_in_place [OF len])
qed

theorem set_brightness_policy_witness:
  "1 < num_value (PyInt 2) \<and>
   set_brightness (PyInt 2) (init no_failures []) = (Raised ValueError, (init no_failures [])) \<and>
   well_formed (init no_failures []) \<and> 0 \<le> num_value (PyFloat (1 / 2)) \<and> num_value (PyFloat (1 / 2)) \<le> 1 \<and>
   fst (set_brightness (PyFloat (1 / 2)) (init no_failures [])) = Returned \<and>
   buffer (snd (set_brightness (PyFloat (1 / 2)) (init no_failures []))) =
     [ [0, 0, 0, 15], [0, 0, 0, 15], [0, 0, 0, 15], [0, 0, 0, 15], [0, 0, 0, 15], [0, 0, 0, 15],
       [0, 0, 0, 15], [0, 0, 0, 15] ]"
proof -
  have v: "int_of_float (fl (31 * py_float (PyFloat (1 / 2)))) AND 31 = 15"
    by code_simp
  show ?thesis
    using set_brightness_policy [of "PyInt 2" "(init no_failures [])"]
      set_brightness_policy [of "PyFloat (1 / 2)" "(init no_failures [])"] unfolding v
    by (simp add: wf_init buffer_def init_sel NUM_PIXELS_def BRIGHTNESS_def)
qed

text \<open>
  Claim C3 as the specification words it, with the specification's quantized value
  \<open>round(31 * f)\<close>, fails at \<open>f = 0.5\<close>: every pixel gets brightness 15, not 16.
\<close>

theorem set_brightness_rounding_counterexample:
  "0 \<le> num_value (PyFloat (1 / 2)) \<and> num_value (PyFloat (1 / 2)) \<le> 1 \<and>
   fst (set_brightness (PyFloat (1 / 2)) (init no_failures [])) = Returned \<and>
   buffer (snd (set_brightness (PyFloat (1 / 2)) (init no_failures []))) ! 0 ! 3 = 15 \<and>
   spec_quantize (PyFloat (1 / 2)) = 16 \<and>
   buffer (snd (set_brightness (PyFloat (1 / 2)) (init no_failures []))) ! 0 ! 3 \<noteq> spec_quantize (PyFloat (1 / 2))"
proof -
  have r: "0 \<le> num_value (PyFloat (1 / 2))" "num_value (PyFloat (1 / 2)) \<le> 1"
    by simp_all
  have len: "length (pixels (init no_failures [])) = NUM_PIXELS"
    by (simp add: init_sel NUM_PIXELS_def)
  have b: "buffer (snd (set_brightness (PyFloat (1 / 2)) (init no_failures []))) =
      map (\<lambda>px. px[3 := quantize (PyFloat (1 / 2))]) (buffer (init no_failures []))"
    unfolding set_brightness_wf [OF wf_init r] snd_conv by (rule buffer_in_place [OF len])
  have f: "fst (set_brightness (PyFloat (1 / 2)) (init no_failures [])) = Returned"
    unfolding set_brightness_wf [OF wf_init r] by simp
  show ?thesis
    unfolding b using f by (simp add: quantize_values buffer_def init_sel BRIGHTNESS_def)
qed

subsection \<open>Clearing the buffer\<close>

text \<open>
  Claim C4. In every well-formed state, \<open>clear()\<close> returns, and afterwards each of the
  \<open>N\<close> pixels has \<open>r\<close>, \<open>g\<close> and \<open>b\<close> zero and the stored brightness that it had
  before the call.
\<close>

theorem clear_zeroes_colours:
  assumes "well_formed s"
  shows "fst (clear s) = Returned \<and>
         buffer (snd (clear s)) = map (\<lambda>px. [0, 0, 0, px ! 3]) (buffer s)"
proof -
  have len: "length (pixels s) = NUM_PIXELS" using assms by (simp add: well_formed_def)
  have "map (\<lambda>l. [0, 0, 0] @ drop 3 l) (buffer s) = map (\<lambda>px. [0, 0, 0, px ! 3]) (buffer s)"
  proof (rule map_cong [OF refl])
    fix l assume "l \<in> set (buffer s)"
    then have "length l = 4" using wf_four [OF assms] by (auto simp: buffer_def)
    then obtain r g b q where "l = [r, g, b, q]"
      by (auto simp: length_Suc_conv eval_nat_numeral)
    then show "[0, 0, 0] @ drop 3 l = [0, 0, 0, l ! 3]"
      by simp
  qed
  moreover have "buffer (snd (clear s)) = map (\<lambda>l. [0, 0, 0] @ drop 3 l) (buffer s)"
    unfolding clear_wf [OF assms] snd_conv by (rule buffer_in_place [OF len])
  moreover have "fst (clear s) = Returned"
    unfolding clear_wf [OF assms] by simp
  ultimately show ?thesis by simp
qed

theorem clear_zeroes_colours_witness:
  "well_formed (snd (set_pixel 2 (Num (PyInt 10)) (Num (PyInt 20)) (Num (PyInt 30)) (Some (PyFloat 1)) (init no_failures []))) \<and>
   fst (clear (snd (set_pixel 2 (Num (PyInt 10)) (Num (PyInt 20)) (Num (PyInt 30)) (Some (PyFloat 1)) (init no_failures [])))) = Returned \<and>
   buffer (snd (clear (snd (set_pixel 2 (Num (PyInt 10)) (Num (PyInt 20)) (Num (PyInt 30)) (Some (PyFloat 1)) (init no_failures []))))) =
     [ [0, 0, 0, 7], [0, 0, 0, 7], [0, 0, 0, 31], [0, 0, 0, 7], [0, 0, 0, 7], [0, 0, 0, 7], [0, 0, 0, 7], [0, 0, 0, 7] ]"
proof -
  have h: "well_formed (snd (set_pixel 2 (Num (PyInt 10)) (Num (PyInt 20)) (Num (PyInt 30)) (Some (PyFloat 1)) (init no_failures [])))"
    by (rule wf_set_pixel) (rule wf_init)
  have b: "buffer (snd (set_pixel 2 (Num (PyInt 10)) (Num (PyInt 20)) (Num (PyInt 30)) (Some (PyFloat 1)) (init no_failures []))) =
     [ [0, 0, 0, 7], [0, 0, 0, 7], [10, 20, 30, 31], [0, 0, 0, 7], [0, 0, 0, 7], [0, 0, 0, 7], [0, 0, 0, 7], [0, 0, 0, 7] ]"
    by (simp add: buffer_eval eval_nat_numeral)
  show ?thesis
    using clear_zeroes_colours [OF h] h unfolding b by simp
qed

subsection \<open>Setting a pixel without a brightness\<close>

text \<open>
  Claim C5. For every valid index \<open>i\<close> and any \<open>r\<close>, \<open>g\<close>, \<open>b\<close>, the call
  \<open>set_pixel(i, r, g, b)\<close> with the brightness omitted returns; afterwards the three
  colour channels of pixel \<open>i\<close> are the new ones (converted by \<open>int()\<close> and masked to
  eight bits) and its stored brightness is the one it had immediately before the call.
\<close>

theorem set_pixel_keeps_brightness:
  assumes "well_formed s" "0 \<le> i" "i < int NUM_PIXELS"
  shows "fst (set_pixel i r g b None s) = Returned \<and>
         buffer (snd (set_pixel i r g b None s)) ! nat i =
           [py_int r AND 255, py_int g AND 255, py_int b AND 255, buffer s ! nat i ! 3]"
proof -
  have len: "length (pixels s) = NUM_PIXELS" using assms(1) by (simp add: well_formed_def)
  have n: "nat i < length (pixels s)" using assms len by simp
  show ?thesis
    unfolding set_pixel_valid [OF assms(1-3)]
    using n by (simp add: buffer_def)
qed

theorem set_pixel_keeps_brightness_witness:
  "well_formed (init no_failures []) \<and> (0::int) \<le> 5 \<and> 5 < int NUM_PIXELS \<and>
   fst (set_pixel 5 (Num (PyInt 10)) (Num (PyInt 20)) (Num (PyInt 30)) None (init no_failures [])) = Returned \<and>
   buffer (snd (set_pixel 5 (Num (PyInt 10)) (Num (PyInt 20)) (Num (PyInt 30)) None (init no_failures []))) ! nat 5 = [10, 20, 30, 7]"
proof -
  have h: "well_formed (init no_failures [])" "(0::int) \<le> 5" "5 < int NUM_PIXELS"
    by (simp_all add: wf_init NUM_PIXELS_def)
  show ?thesis
    using set_pixel_keeps_brightness [OF h, of "Num (PyInt 10)" "Num (PyInt 20)" "Num (PyInt 30)"] h
    by (simp add: buffer_def init_sel NUM_PIXELS_def BRIGHTNESS_def)
qed

subsection \<open>The other pixels\<close>

text \<open>
  Claim C10. For valid indices \<open>i\<close> and \<open>j\<close> with \<open>j \<noteq> i\<close>,
  \<open>set_pixel(i, r, g, b, brightness?)\<close> leaves what \<open>get_pixel(j)\<close> returns unchanged,
  in every well-formed state: the call binds slot \<open>i\<close> to a list at a fresh address
  and writes to no list that another slot refers to. The initial state, where all
  slots refer to one list, is well formed (\<open>wf_init\<close>).
\<close>

theorem set_pixel_frame:
  assumes "well_formed s" "0 \<le> i" "i < int NUM_PIXELS" "0 \<le> j" "j < int NUM_PIXELS" "j \<noteq> i"
  shows "get_pixel j (snd (set_pixel i r g b br s)) = get_pixel j s"
proof -
  have len: "length (pixels s) = NUM_PIXELS" using assms(1) by (simp add: well_formed_def)
  have "nat j < NUM_PIXELS" using assms by simp
  then have fresh: "pixels s ! nat j \<noteq> next_addr s"
    using wf_slot [OF assms(1), of "nat j"] by simp
  have ne: "nat i \<noteq> nat j" using assms by simp
  show ?thesis
    unfolding set_pixel_valid [OF assms(1-3)]
    using len assms(4,5) ne fresh by (simp add: get_pixel_def py_index_valid)
qed

theorem set_pixel_frame_witness:
  "well_formed (init no_failures []) \<and> (0::int) \<le> 2 \<and> 2 < int NUM_PIXELS \<and> (0::int) \<le> 6 \<and> 6 < int NUM_PIXELS \<and>
   (6::int) \<noteq> 2 \<and>
   get_pixel 6 (snd (set_pixel 2 (Num (PyInt 10)) (Num (PyInt 20)) (Num (PyInt 30)) (Some (PyFloat 1)) (init no_failures []))) =
     Inr (0, 0, 0, fl (113 / 500))"
proof -
  have h: "well_formed (init no_failures [])" "(0::int) \<le> 2" "2 < int NUM_PIXELS" "(0::int) \<le> 6" "6 < int NUM_PIXELS"
    "(6::int) \<noteq> 2"
    by (simp_all add: wf_init NUM_PIXELS_def)
  show ?thesis
    using set_pixel_frame [OF h, of "Num (PyInt 10)" "Num (PyInt 20)" "Num (PyInt 30)"
        "Some (PyFloat 1)"] h
    by (simp add: get_pixel_def py_index_def init_sel NUM_PIXELS_def BRIGHTNESS_def round3_values
        fl_small_values)
qed

section \<open>Properties of rendering\<close>

subsection \<open>What the bit-banging records\<close>

lemma gpio_write_eq: "gpio_write pin v s = s\<lparr>trace := trace s @ [GpioWrite (handle s) pin v]\<rparr>"
  by (simp add: gpio_write_def emit_def)

lemma sleep_eq: "sleep ns s = s\<lparr>trace := trace s @ [Sleep ns]\<rparr>"
  by (simp add: sleep_def emit_def)

lemma clock_pulse_eq: "clock_pulse s = s\<lparr>trace := trace s @ pulse (handle s)\<rparr>"
  by (simp add: clock_pulse_def gpio_write_eq sleep_eq pulse_def)

lemma repeat_clock_pulse:
  "repeat n clock_pulse s = s\<lparr>trace := trace s @ concat (replicate n (pulse (handle s)))\<rparr>"
  by (induction n arbitrary: s) (simp_all add: clock_pulse_eq)

lemma sof_eq:
  "sof s = s\<lparr>trace := trace s @ GpioWrite (handle s) DAT 0 # concat (replicate 32 (pulse (handle s)))\<rparr>"
  by (simp add: sof_def repeat_clock_pulse gpio_write_eq)

lemma eof_eq:
  "eof s = s\<lparr>trace := trace s @ GpioWrite (handle s) DAT 0 # concat (replicate 36 (pulse (handle s)))\<rparr>"
  by (simp add: eof_def repeat_clock_pulse gpio_write_eq)

lemma bit7: "(byte AND 128 \<noteq> 0) = bit (byte :: int) 7"
proof -
  have "bit byte 7 \<longleftrightarrow> byte AND push_bit 7 1 \<noteq> 0"
    by (rule bit_iff_and_push_bit_not_eq_0)
  then show ?thesis by simp
qed

lemma write_byte_loop_eq:
  "n \<le> 8 \<Longrightarrow> write_byte_loop n byte s =
     s\<lparr>trace := trace s @ concat (map (\<lambda>i. bit_events (handle s) byte (7 - i)) [0..<n])\<rparr>"
proof (induction n arbitrary: byte s)
  case 0
  then show ?case by simp
next
  case (Suc n)
  let ?s5 = "s\<lparr>trace := trace s @ bit_events (handle s) byte 7\<rparr>"
  have shift: "bit_events (handle s) (push_bit 1 byte) (7 - i) = bit_events (handle s) byte (7 - Suc i)"
    if "i < n" for i
  proof -
    have "bit (push_bit 1 byte) (7 - i) \<longleftrightarrow> bit byte (7 - Suc i)"
      unfolding bit_push_bit_iff using that Suc.prems by auto
    then show ?thesis
      unfolding bit_events_def by (simp only:)
  qed
  have "write_byte_loop (Suc n) byte s = write_byte_loop n (push_bit 1 byte) ?s5"
    by (simp add: gpio_write_eq sleep_eq bit_events_def pulse_def bit7 Let_def)
  also have "\<dots> = ?s5\<lparr>trace := trace ?s5 @
      concat (map (\<lambda>i. bit_events (handle ?s5) (push_bit 1 byte) (7 - i)) [0..<n])\<rparr>"
    using Suc.prems by (intro Suc.IH) simp
  also have "concat (map (\<lambda>i. bit_events (handle ?s5) (push_bit 1 byte) (7 - i)) [0..<n]) =
      concat (map (\<lambda>i. bit_events (handle s) byte (7 - Suc i)) [0..<n])"
    using shift by (intro arg_cong [where f = concat] map_cong) simp_all
  finally have eq: "write_byte_loop (Suc n) byte s =
      s\<lparr>trace := trace s @ bit_events (handle s) byte 7 @
        concat (map (\<lambda>i. bit_events (handle s) byte (7 - Suc i)) [0..<n])\<rparr>"
    by simp
  have "[0..<Suc n] = 0 # map Suc [0..<n]"
    by (simp add: upt_conv_Cons map_Suc_upt del: upt_Suc)
  then show ?case
    unfolding eq by (simp add: comp_def del: upt_Suc)
qed

lemma write_byte_eq: "write_byte byte s = s\<lparr>trace := trace s @ byte_events (handle s) byte\<rparr>"
proof -
  have "[0..<8] = [0, 1, 2, 3, 4, 5, 6, 7::nat]" by (simp add: upt_conv_Cons)
  then show ?thesis
    by (simp add: write_byte_def write_byte_loop_eq byte_events_def)
qed

lemma show_pixel_eq:
  assumes "length (heap s a) = 4"
  shows "show_pixel a s = (Returned, s\<lparr>trace := trace s @ pixel_events (handle s) (heap s a)\<rparr>)"
proof -
  from assms obtain r g b q where px: "heap s a = [r, g, b, q]"
    by (auto simp: length_Suc_conv eval_nat_numeral)
  show ?thesis
    by (simp add: show_pixel_def px write_byte_eq pixel_events_def)
qed

lemma for_each_show_pixel:
  "list_all (\<lambda>a. length (heap s a) = 4) as \<Longrightarrow>
   for_each as show_pixel s =
     (Returned, s\<lparr>trace := trace s @ concat (map (\<lambda>a. pixel_events (handle s) (heap s a)) as)\<rparr>)"
  by (induction as arbitrary: s) (simp_all add: show_pixel_eq)

lemma transmit_eq:
  assumes "list_all (\<lambda>a. length (heap s a) = 4) (pixels s)"
  shows "(case for_each (pixels s) show_pixel (sof s) of
             (Raised e, s2) \<Rightarrow> (Raised e, s2)
           | (Returned, s2) \<Rightarrow> (Returned, eof s2)) =
         (Returned, s\<lparr>trace := trace s @ frame_events (handle s) (buffer s)\<rparr>)"
proof -
  have "list_all (\<lambda>a. length (heap (sof s) a) = 4) (pixels s)"
    using assms by (simp add: sof_eq)
  then have "for_each (pixels s) show_pixel (sof s) =
     (Returned, (sof s)\<lparr>trace := trace (sof s) @
        concat (map (\<lambda>a. pixel_events (handle (sof s)) (heap (sof s) a)) (pixels s))\<rparr>)"
    by (rule for_each_show_pixel)
  then show ?thesis
    by (simp add: sof_eq eof_eq frame_events_def buffer_def comp_def)
qed

lemma show_ready:
  assumes "gpio_setup s" "list_all (\<lambda>a. length (heap s a) = 4) (pixels s)"
  shows "show' s = (Returned, s\<lparr>trace := trace s @ frame_events (handle s) (buffer s)\<rparr>)"
  using assms by (simp add: show'_def transmit_eq)

lemma clock_pulses_pulse: "clock_pulses c (pulse h @ es) = Suc (clock_pulses 0 es)"
  by (simp add: pulse_def)

lemma clock_pulses_pulses:
  "clock_pulses 0 (concat (replicate n (pulse h)) @ es) = n + clock_pulses 0 es"
  by (induction n) (simp_all add: clock_pulses_pulse)

lemma clock_pulses_data: "clock_pulses c (GpioWrite h DAT v # es) = clock_pulses c es"
  by (simp add: DAT_def CLK_def)

lemma clock_pulses_bit: "clock_pulses 0 (bit_events h byte k @ es) = Suc (clock_pulses 0 es)"
  by (simp add: bit_events_def clock_pulses_data clock_pulses_pulse)

lemma clock_pulses_byte: "clock_pulses 0 (byte_events h byte @ es) = 8 + clock_pulses 0 es"
  by (simp add: byte_events_def clock_pulses_bit)

lemma clock_pulses_pixel: "clock_pulses 0 (pixel_events h px @ es) = 32 + clock_pulses 0 es"
  by (simp add: pixel_events_def clock_pulses_byte)

lemma clock_pulses_pixels:
  "clock_pulses 0 (concat (map (pixel_events h) buf) @ es) = 32 * length buf + clock_pulses 0 es"
  by (induction buf) (simp_all add: clock_pulses_pixel)

lemma clock_pulses_frame: "clock_pulses 0 (frame_events h buf) = 32 + 32 * length buf + 36"
proof -
  have "clock_pulses 0 (concat (replicate 36 (pulse h)) @ []) = 36 + clock_pulses 0 []"
    by (rule clock_pulses_pulses)
  then have e: "clock_pulses 0 (concat (replicate 36 (pulse h))) = 36" by simp
  show ?thesis
    unfolding frame_events_def
    by (simp only: append_Cons append_assoc clock_pulses_data clock_pulses_pulses clock_pulses_pixels e)
qed

lemma sample_bit:
  "sample d 0 (bit_events h byte k @ es) =
     (if bit byte k then 1 else 0) # sample (if bit byte k then 1 else 0) 0 es"
  by (simp add: bit_events_def pulse_def DAT_def CLK_def)

lemma sample_byte:
  "sample d 0 (byte_events h byte @ es) =
     map (\<lambda>k. if bit byte k then 1 else 0) [7, 6, 5, 4, 3, 2, 1, 0] @
     sample (if bit byte 0 then 1 else 0) 0 es"
  by (simp add: byte_events_def sample_bit)

lemma take_bit_8_bits:
  "take_bit 8 (x::int) = 128 * of_bool (bit x 7) + (64 * of_bool (bit x 6) +
         (32 * of_bool (bit x 5) + (16 * of_bool (bit x 4) +
         (8 * of_bool (bit x 3) + (4 * of_bool (bit x 2) +
         (2 * of_bool (bit x 1) + of_bool (bit x 0)))))))"
proof -
  have s: "take_bit (Suc n) x = 2 ^ n * of_bool (bit x n) + take_bit n x" for n
    by (rule take_bit_Suc_from_most)
  have t8: "take_bit 8 x = 128 * of_bool (bit x 7) + take_bit 7 x" using s [of 7] by simp
  have t7: "take_bit 7 x = 64 * of_bool (bit x 6) + take_bit 6 x" using s [of 6] by simp
  have t6: "take_bit 6 x = 32 * of_bool (bit x 5) + take_bit 5 x" using s [of 5] by simp
  have t5: "take_bit 5 x = 16 * of_bool (bit x 4) + take_bit 4 x" using s [of 4] by simp
  have t4: "take_bit 4 x = 8 * of_bool (bit x 3) + take_bit 3 x" using s [of 3] by simp
  have t3: "take_bit 3 x = 4 * of_bool (bit x 2) + take_bit 2 x" using s [of 2] by simp
  have b1: "(of_bool (bit x 1) :: int) = x div 2 mod 2"
    by (simp add: bit_iff_odd of_bool_def) presburger
  have b0: "(of_bool (bit x 0) :: int) = x mod 2"
    by (simp add: bit_iff_odd of_bool_def) presburger
  have t2: "take_bit 2 x = 2 * of_bool (bit x 1) + of_bool (bit x 0)"
    unfolding b1 b0 by (simp add: take_bit_eq_mod) presburger
  show ?thesis
    by (simp only: t8 t7 t6 t5 t4 t3 t2)
qed

lemma bytes_of_bits_byte:
  assumes "0 \<le> (x::int)" "x < 256"
  shows "bytes_of_bits (map (\<lambda>k. if bit x k then 1 else 0) [7, 6, 5, 4, 3, 2, 1, 0] @ rest) =
           x # bytes_of_bits rest"
proof -
  have conv: "int (if c then 1 else 0) = of_bool c" for c
    by simp
  have "take_bit 8 x = x" using assms by (simp add: take_bit_int_eq_self)
  then have "128 * of_bool (bit x 7) + (64 * of_bool (bit x 6) +
         (32 * of_bool (bit x 5) + (16 * of_bool (bit x 4) +
         (8 * of_bool (bit x 3) + (4 * of_bool (bit x 2) +
         (2 * of_bool (bit x 1) + of_bool (bit x 0))))))) = x"
    by (simp only: take_bit_8_bits)
  then have sum: "128 * of_bool (bit x 7) + 64 * of_bool (bit x 6) +
         32 * of_bool (bit x 5) + 16 * of_bool (bit x 4) +
         8 * of_bool (bit x 3) + 4 * of_bool (bit x 2) +
         2 * of_bool (bit x 1) + of_bool (bit x 0) = x"
    by (simp only: add.assoc)
  show ?thesis
    by (simp only: list.map append_Cons append_Nil bytes_of_bits.simps conv sum)
qed

lemma wire_bytes_pixel:
  assumes "0 \<le> r" "r < 256" "0 \<le> g" "g < 256" "0 \<le> b" "b < 256" "0 \<le> q" "q < 32"
  shows "wire_bytes (pixel_events h [r, g, b, q]) = [224 OR q, b, g, r]"
proof -
  have "q < 2 ^ 8" "(224::int) < 2 ^ 8" using assms by simp_all
  then have "224 OR q < 2 ^ 8" using assms(7) by (intro OR_upper) simp_all
  then have hi: "224 OR q < 256" by simp
  have lo: "0 \<le> 224 OR q" using assms(7) by simp
  have "sample 0 0 (pixel_events h [r, g, b, q]) =
      sample 0 0 (byte_events h (224 OR q) @ byte_events h b @ byte_events h g @ byte_events h r @ [])"
    by (simp add: pixel_events_def)
  also have "\<dots> = map (\<lambda>k. if bit (224 OR q) k then 1 else 0) [7, 6, 5, 4, 3, 2, 1, 0] @
      map (\<lambda>k. if bit b k then 1 else 0) [7, 6, 5, 4, 3, 2, 1, 0] @
      map (\<lambda>k. if bit g k then 1 else 0) [7, 6, 5, 4, 3, 2, 1, 0] @
      map (\<lambda>k. if bit r k then 1 else 0) [7, 6, 5, 4, 3, 2, 1, 0] @ []"
    by (simp only: sample_byte sample.simps)
  finally show ?thesis
    unfolding wire_bytes_def
    by (simp only: bytes_of_bits_byte [OF lo hi] bytes_of_bits_byte [OF assms(5,6)]
        bytes_of_bits_byte [OF assms(3,4)] bytes_of_bits_byte [OF assms(1,2)] bytes_of_bits.simps)
qed

lemma emitted_append: "emitted s (s\<lparr>trace := trace s @ es\<rparr>) = es"
  by (simp add: emitted_def)

lemma lgpio_call_eq:
  "lgpio_call e s =
     (if lgpio_ok s (lgpio_calls s) then Returned else Raised LgpioError,
      s\<lparr>trace := trace s @ [e], lgpio_calls := Suc (lgpio_calls s)\<rparr>)"
  by (simp add: lgpio_call_def emit_def)

lemma claim_or_retry_eq:
  "claim_or_retry pin s =
     (claim_outcome (lgpio_ok s) (lgpio_calls s),
      s\<lparr>trace := trace s @ claim_events (lgpio_ok s) (lgpio_calls s) (handle s) pin,
        lgpio_calls := lgpio_calls s + claim_calls (lgpio_ok s) (lgpio_calls s)\<rparr>)"
  by (simp add: claim_or_retry_def gpio_claim_output_def gpio_free_def lgpio_call_eq
      claim_events_def claim_calls_def claim_outcome_def)

lemma gpiochip_open_eq:
  "gpiochip_open c s =
     s\<lparr>handle := Some (length (filter is_open (trace s))), trace := trace s @ [ChipOpen c]\<rparr>"
  by (simp add: gpiochip_open_def emit_def)

lemma lazy_setup_eq:
  "lazy_setup s =
     (let c = find_rp1_chip (gpiochips s);
          h = Some (length (filter is_open (trace s)));
          ok = lgpio_ok s;
          n = lgpio_calls s;
          m = n + claim_calls ok n;
          dat = ChipOpen c # claim_events ok n h DAT;
          clk = claim_events ok m h CLK
      in if claim_outcome ok n \<noteq> Returned
         then (Raised LgpioError, s\<lparr>handle := h, trace := trace s @ dat, lgpio_calls := m\<rparr>)
         else if claim_outcome ok m \<noteq> Returned
         then (Raised LgpioError,
               s\<lparr>handle := h, trace := trace s @ dat @ clk, lgpio_calls := m + claim_calls ok m\<rparr>)
         else (Returned,
               s\<lparr>handle := h, trace := trace s @ dat @ clk @ [AtexitRegister],
                 lgpio_calls := m + claim_calls ok m, gpio_setup := True\<rparr>))"
  by (simp add: lazy_setup_def claim_or_retry_eq gpiochip_open_eq emit_def Let_def claim_outcome_def)

lemma lazy_setup_buffer:
  "pixels (snd (lazy_setup s)) = pixels s" "heap (snd (lazy_setup s)) = heap s"
  by (simp_all add: lazy_setup_eq Let_def)

lemma show_first:
  assumes "\<not> gpio_setup s" "list_all (\<lambda>a. length (heap s a) = 4) (pixels s)"
  shows "show' s =
     (case lazy_setup s of
        (Raised e, s1) \<Rightarrow> (Raised e, s1)
      | (Returned, s1) \<Rightarrow> (Returned, s1\<lparr>trace := trace s1 @ frame_events (handle s1) (buffer s)\<rparr>))"
proof (cases "lazy_setup s")
  case (Pair r s1)
  have s1: "s1 = snd (lazy_setup s)" using Pair by simp
  have ok: "list_all (\<lambda>a. length (heap s1 a) = 4) (pixels s1)"
    unfolding s1 lazy_setup_buffer by (rule assms(2))
  have b: "buffer s1 = buffer s"
    unfolding s1 buffer_def lazy_setup_buffer ..
  show ?thesis
  proof (cases r)
    case Returned
    then show ?thesis
      using assms(1) Pair transmit_eq [OF ok] b by (simp add: show'_def)
  next
    case (Raised e)
    then show ?thesis
      using assms(1) Pair by (simp add: show'_def)
  qed
qed

lemma filter_frame_events:
  assumes "\<And>h p v. \<not> P (GpioWrite h p v)" "\<And>n. \<not> P (Sleep n)"
  shows "filter P (frame_events h buf) = []"
proof -
  have p: "filter P (pulse h) = []"
    using assms by (simp add: pulse_def)
  have ps: "filter P (concat (replicate n (pulse h))) = []" for n
    by (induction n) (simp_all add: p)
  have bt: "filter P (byte_events h byte) = []" for byte
    using assms by (simp add: byte_events_def bit_events_def p)
  have px: "filter P (pixel_events h x) = []" for x
    by (simp add: pixel_events_def bt)
  have pxs: "filter P (concat (map (pixel_events h) buf)) = []"
    by (induction buf) (simp_all add: px)
  show ?thesis
    using assms(1) by (simp add: frame_events_def ps pxs)
qed

lemma filter_claim_events:
  assumes "\<And>h p. \<not> P (ClaimOutput h p)" "\<And>h p. \<not> P (Free h p)"
  shows "filter P (claim_events ok n h pin) = []"
  using assms by (simp add: claim_events_def)

lemma claims_of_pin:
  "claim_outcome ok n = Returned \<Longrightarrow>
   length (filter (is_claim pin) (claim_events ok n h pin)) = (if ok n then 1 else 2)"
  "pin' \<noteq> pin \<Longrightarrow> filter (is_claim pin') (claim_events ok n h pin) = []"
  by (auto simp: claim_events_def claim_outcome_def split: if_splits)

lemma frame_events_head:
  "frame_events h buf = GpioWrite h DAT 0 # tl (frame_events h buf)"
  by (simp add: frame_events_def)

lemma dropWhile_setup_frame:
  assumes "filter is_write es = []"
  shows "dropWhile (\<lambda>e. \<not> is_write e) (es @ frame_events h buf @ rest) = frame_events h buf @ rest"
proof -
  have "\<forall>e\<in>set es. \<not> is_write e"
    using assms by (simp add: filter_empty_conv)
  then have "dropWhile (\<lambda>e. \<not> is_write e) (es @ frame_events h buf @ rest) =
      dropWhile (\<lambda>e. \<not> is_write e) (frame_events h buf @ rest)"
    by (simp add: dropWhile_append2)
  also have "\<dots> = frame_events h buf @ rest"
    by (subst (1 2) frame_events_head) simp
  finally show ?thesis .
qed

lemma find_pi5: "find_rp1_chip pi5_chips = 4"
  by code_simp

lemma init_env:
  "gpio_setup (init ok chips) = False"
  "handle (init ok chips) = None"
  "trace (init ok chips) = []"
  "lgpio_ok (init ok chips) = ok"
  "lgpio_calls (init ok chips) = 0"
  "gpiochips (init ok chips) = chips"
  by (simp_all add: init_def)

lemma init_four: "list_all (\<lambda>a. length (heap (init ok chips) a) = 4) (pixels (init ok chips))"
  by (simp add: init_sel BRIGHTNESS_def)

lemma show_returned_ready:
  assumes "\<not> gpio_setup s" "list_all (\<lambda>a. length (heap s a) = 4) (pixels s)"
    and "fst (show' s) = Returned"
  shows "gpio_setup (snd (show' s))" "pixels (snd (show' s)) = pixels s"
    "heap (snd (show' s)) = heap s"
proof -
  note first = show_first [OF assms(1,2)]
  obtain r t where lt: "lazy_setup s = (r, t)" by (cases "lazy_setup s")
  have r: "r = Returned"
    using assms(3) unfolding first lt by (cases r) simp_all
  have t: "gpio_setup t" "pixels t = pixels s" "heap t = heap s"
    using lt lazy_setup_buffer [of s] unfolding r
    by (auto simp: lazy_setup_eq Let_def split: if_splits)
  show "gpio_setup (snd (show' s))" "pixels (snd (show' s)) = pixels s"
    "heap (snd (show' s)) = heap s"
    unfolding first lt r using t by simp_all
qed

lemma lazy_setup_no_failures:
  "fst (lazy_setup (init no_failures chips)) = Returned"
  by (simp add: lazy_setup_eq Let_def claim_outcome_def no_failures_def init_env)

lemma show_init_returns: "fst (show' (init no_failures chips)) = Returned"
proof -
  obtain t where "lazy_setup (init no_failures chips) = (Returned, t)"
    using lazy_setup_no_failures [of chips] by (cases "lazy_setup (init no_failures chips)") auto
  then show ?thesis
    by (simp add: show_first [OF _ init_four] init_env)
qed

lemma clock_pulses_no_writes:
  "filter is_write es = [] \<Longrightarrow> clock_pulses c (es @ rest) = clock_pulses c rest"
proof (induction es)
  case Nil
  then show ?case by simp
next
  case (Cons e es)
  then show ?case by (cases e) (simp_all split: if_splits)
qed

lemma show_returned_trace:
  assumes "list_all (\<lambda>a. length (heap s a) = 4) (pixels s)" "fst (show' s) = Returned"
  shows "\<exists>es. filter is_write es = [] \<and>
           emitted s (snd (show' s)) = es @ frame_events (handle (snd (show' s))) (buffer s) @ []"
proof (cases "gpio_setup s")
  case True
  have "filter is_write [] = [] \<and>
      emitted s (snd (show' s)) = [] @ frame_events (handle (snd (show' s))) (buffer s) @ []"
    unfolding show_ready [OF True assms(1)] by (simp add: emitted_def)
  then show ?thesis ..
next
  case False
  note first = show_first [OF False assms(1)]
  obtain r t where lt: "lazy_setup s = (r, t)" by (cases "lazy_setup s")
  have r: "r = Returned"
    using assms(2) unfolding first lt by (cases r) simp_all
  define ini where "ini = ChipOpen (find_rp1_chip (gpiochips s)) #
      claim_events (lgpio_ok s) (lgpio_calls s) (Some (length (filter is_open (trace s)))) DAT @
      claim_events (lgpio_ok s) (lgpio_calls s + claim_calls (lgpio_ok s) (lgpio_calls s))
        (Some (length (filter is_open (trace s)))) CLK @ [AtexitRegister]"
  have t: "trace t = trace s @ ini"
    using lt unfolding r ini_def by (auto simp: lazy_setup_eq Let_def split: if_splits)
  have nw: "filter is_write ini = []"
    by (simp add: ini_def filter_claim_events)
  have "emitted s (snd (show' s)) = ini @ frame_events (handle (snd (show' s))) (buffer s) @ []"
    unfolding first lt r by (simp add: emitted_def t)
  with nw show ?thesis by blast
qed

subsection \<open>The clock pulses of a transmission\<close>

text \<open>
  Claim C6. For every buffer of \<open>N\<close> four-element pixels, a \<open>show()\<close> call in the Ready
  state returns, and every \<open>show()\<close> call that returns (the first one, after its
  set-up, as well) writes to the two lines exactly: the data line low and 32 clock
  pulses; then, for each pixel in buffer order, four bytes of eight bits, each bit a
  write of the data line and one clock pulse; then the data line low and 36 clock
  pulses. Each pulse is clock high, a 500 ns sleep, clock low, a 500 ns sleep, and the
  observer counts \<open>32 + N * 32 + 36\<close> completed pulses on the clock line.
\<close>

theorem transmission_pulses:
  assumes "list_all (\<lambda>a. length (heap s a) = 4) (pixels s)"
  shows "(gpio_setup s \<longrightarrow> fst (show' s) = Returned) \<and>
         (fst (show' s) = Returned \<longrightarrow>
            (let h = handle (snd (show' s)); es = emitted s (snd (show' s))
             in dropWhile (\<lambda>e. \<not> is_write e) es =
                  (GpioWrite h DAT 0 # concat (replicate 32 (pulse h))) @
                  concat (map (pixel_events h) (buffer s)) @
                  (GpioWrite h DAT 0 # concat (replicate 36 (pulse h))) \<and>
                clock_pulses 0 es = 32 + length (pixels s) * 32 + 36))"
proof (intro conjI impI)
  assume "gpio_setup s"
  then show "fst (show' s) = Returned"
    using assms by (simp add: show_ready)
next
  assume "fst (show' s) = Returned"
  with assms obtain es where nw: "filter is_write es = []"
    and em: "emitted s (snd (show' s)) = es @ frame_events (handle (snd (show' s))) (buffer s) @ []"
    using show_returned_trace by blast
  have d: "dropWhile (\<lambda>e. \<not> is_write e) (emitted s (snd (show' s))) =
      frame_events (handle (snd (show' s))) (buffer s)"
    unfolding em dropWhile_setup_frame [OF nw] by simp
  have "clock_pulses 0 (emitted s (snd (show' s))) =
      clock_pulses 0 (frame_events (handle (snd (show' s))) (buffer s))"
    unfolding em clock_pulses_no_writes [OF nw] by simp
  then have c: "clock_pulses 0 (emitted s (snd (show' s))) = 32 + length (pixels s) * 32 + 36"
    by (simp add: clock_pulses_frame buffer_def)
  show "let h = handle (snd (show' s)); es = emitted s (snd (show' s))
             in dropWhile (\<lambda>e. \<not> is_write e) es =
                  (GpioWrite h DAT 0 # concat (replicate 32 (pulse h))) @
                  concat (map (pixel_events h) (buffer s)) @
                  (GpioWrite h DAT 0 # concat (replicate 36 (pulse h))) \<and>
                clock_pulses 0 es = 32 + length (pixels s) * 32 + 36"
    unfolding Let_def d c by (simp add: frame_events_def)
qed

theorem transmission_pulses_witness:
  "list_all (\<lambda>a. length (heap (init no_failures pi5_chips) a) = 4) (pixels (init no_failures pi5_chips)) \<and>
   fst (show' (init no_failures pi5_chips)) = Returned \<and>
   clock_pulses 0 (emitted (init no_failures pi5_chips) (snd (show' (init no_failures pi5_chips)))) = 324 \<and>
   gpio_setup (snd (show' (init no_failures pi5_chips))) \<and>
   list_all (\<lambda>a. length (heap (snd (show' (init no_failures pi5_chips))) a) = 4)
     (pixels (snd (show' (init no_failures pi5_chips)))) \<and>
   fst (show' (snd (show' (init no_failures pi5_chips)))) = Returned \<and>
   clock_pulses 0 (emitted (snd (show' (init no_failures pi5_chips)))
     (snd (show' (snd (show' (init no_failures pi5_chips)))))) = 324"
proof -
  have n: "\<not> gpio_setup (init no_failures pi5_chips)" by (simp add: init_env)
  note ready = show_returned_ready [OF n init_four show_init_returns]
  have h1: "gpio_setup (snd (show' (init no_failures pi5_chips)))" by (rule ready(1))
  have h2: "list_all (\<lambda>a. length (heap (snd (show' (init no_failures pi5_chips))) a) = 4)
     (pixels (snd (show' (init no_failures pi5_chips))))"
    unfolding ready(2,3) by (rule init_four)
  have len: "length (pixels (snd (show' (init no_failures pi5_chips)))) = 8"
    "length (pixels (init no_failures pi5_chips)) = 8"
    unfolding ready(2) by (simp_all add: init_sel)
  show ?thesis
    using transmission_pulses [OF h2] transmission_pulses [OF init_four, of no_failures pi5_chips]
      h1 h2 init_four [of no_failures pi5_chips] show_init_returns [of pi5_chips]
    unfolding len Let_def by simp
qed

subsection \<open>The bytes of a pixel on the wire\<close>

text \<open>
  Claim C7. For every pixel with stored values \<open>(r, g, b, brightness)\<close>, the colours
  within eight bits and the brightness within five, a receiver that samples the data
  line at each rising clock edge and assembles the bits most significant first reads
  four bytes, in order \<open>0b11100000 | brightness\<close>, \<open>b\<close>, \<open>g\<close>, \<open>r\<close>. In particular,
  after \<open>set_pixel(i, 10, 20, 30, 1.0)\<close> pixel \<open>i\<close> is stored as \<open>[10, 20, 30, 31]\<close>
  and its bytes on the wire are \<open>0b11111111\<close>, 30, 20, 10.
\<close>

theorem pixel_wire_bytes:
  "(heap s a = [r, g, b, q] \<and> 0 \<le> r \<and> r < 256 \<and> 0 \<le> g \<and> g < 256 \<and> 0 \<le> b \<and> b < 256 \<and>
    0 \<le> q \<and> q < 32 \<longrightarrow>
      fst (show_pixel a s) = Returned \<and>
      wire_bytes (emitted s (snd (show_pixel a s))) = [224 OR q, b, g, r]) \<and>
   (well_formed s \<and> 0 \<le> i \<and> i < int NUM_PIXELS \<longrightarrow>
      (let s1 = snd (set_pixel i (Num (PyInt 10)) (Num (PyInt 20)) (Num (PyInt 30)) (Some (PyFloat 1)) s)
       in buffer s1 ! nat i = [10, 20, 30, 31] \<and>
          fst (show_pixel (pixels s1 ! nat i) s1) = Returned \<and>
          wire_bytes (emitted s1 (snd (show_pixel (pixels s1 ! nat i) s1))) = [255, 30, 20, 10]))"
proof (intro conjI impI)
  assume a: "heap s a = [r, g, b, q] \<and> 0 \<le> r \<and> r < 256 \<and> 0 \<le> g \<and> g < 256 \<and> 0 \<le> b \<and> b < 256 \<and>
    0 \<le> q \<and> q < 32"
  then have eq: "show_pixel a s = (Returned, s\<lparr>trace := trace s @ pixel_events (handle s) [r, g, b, q]\<rparr>)"
    using show_pixel_eq [of s a] by simp
  show "fst (show_pixel a s) = Returned" by (simp add: eq)
  show "wire_bytes (emitted s (snd (show_pixel a s))) = [224 OR q, b, g, r]"
    unfolding eq snd_conv emitted_append using a by (intro wire_bytes_pixel) simp_all
next
  assume a: "well_formed s \<and> 0 \<le> i \<and> i < int NUM_PIXELS"
  define s1 where "s1 = snd (set_pixel i (Num (PyInt 10)) (Num (PyInt 20)) (Num (PyInt 30)) (Some (PyFloat 1)) s)"
  have len: "length (pixels s) = NUM_PIXELS" using a by (simp add: well_formed_def)
  have q1: "quantize (PyFloat 1) = 31" by (rule quantize_values)
  have ni: "nat i < length (pixels s)" using a len by auto
  have px: "heap s1 (pixels s1 ! nat i) = [10, 20, 30, 31]"
    using a ni unfolding s1_def by (simp add: set_pixel_valid q1)
  have n: "nat i < length (pixels s1)"
    using a ni unfolding s1_def by (simp add: set_pixel_valid)
  have eq: "show_pixel (pixels s1 ! nat i) s1 =
      (Returned, s1\<lparr>trace := trace s1 @ pixel_events (handle s1) [10, 20, 30, 31]\<rparr>)"
    using show_pixel_eq [of s1 "pixels s1 ! nat i"] px by simp
  have w: "wire_bytes (pixel_events (handle s1) [10, 20, 30, 31]) = [224 OR 31, 30, 20, 10]"
    by (rule wire_bytes_pixel) simp_all
  have "buffer s1 ! nat i = [10, 20, 30, 31] \<and>
          fst (show_pixel (pixels s1 ! nat i) s1) = Returned \<and>
          wire_bytes (emitted s1 (snd (show_pixel (pixels s1 ! nat i) s1))) = [255, 30, 20, 10]"
    unfolding eq snd_conv fst_conv emitted_append w using px n by (simp add: buffer_def)
  then show "let s1 = snd (set_pixel i (Num (PyInt 10)) (Num (PyInt 20)) (Num (PyInt 30)) (Some (PyFloat 1)) s)
       in buffer s1 ! nat i = [10, 20, 30, 31] \<and>
          fst (show_pixel (pixels s1 ! nat i) s1) = Returned \<and>
          wire_bytes (emitted s1 (snd (show_pixel (pixels s1 ! nat i) s1))) = [255, 30, 20, 10]"
    unfolding s1_def Let_def .
qed

theorem pixel_wire_bytes_witness:
  "heap (init no_failures []) 0 = [0, 0, 0, 7] \<and>
   fst (show_pixel 0 (init no_failures [])) = Returned \<and>
   wire_bytes (emitted (init no_failures []) (snd (show_pixel 0 (init no_failures [])))) = [231, 0, 0, 0] \<and>
   well_formed (init no_failures []) \<and> (0::int) \<le> 5 \<and> 5 < int NUM_PIXELS \<and>
   wire_bytes (emitted (snd (set_pixel 5 (Num (PyInt 10)) (Num (PyInt 20)) (Num (PyInt 30)) (Some (PyFloat 1)) (init no_failures [])))
     (snd (show_pixel (pixels (snd (set_pixel 5 (Num (PyInt 10)) (Num (PyInt 20)) (Num (PyInt 30)) (Some (PyFloat 1)) (init no_failures []))) ! nat 5)
        (snd (set_pixel 5 (Num (PyInt 10)) (Num (PyInt 20)) (Num (PyInt 30)) (Some (PyFloat 1)) (init no_failures [])))))) = [255, 30, 20, 10]"
  using pixel_wire_bytes [of "init no_failures []" 0 0 0 0 7 5]
  by (simp add: init_sel wf_init NUM_PIXELS_def BRIGHTNESS_def Let_def)

subsection \<open>Claiming a pin\<close>

text \<open>
  Claim C8, as the code has it. In the set-up of the first \<open>show()\<close> call, for the
  data pin and for the clock pin: when the claim returns, nothing else is called; when
  it raises, the pin is force-released, and if the release returns the claim is retried
  exactly once, and the outcome of that one retry is the outcome of the block (no
  further call is made); if the release itself raises, that error is the outcome and
  the claim is not retried. Whatever either block raises is the outcome of \<open>show()\<close>,
  in the state in which it was raised: nothing is transmitted and \<open>_gpio_setup\<close> stays
  false.
\<close>

theorem claim_retry_policy:
  "(lgpio_ok s (lgpio_calls s) \<longrightarrow>
      claim_or_retry pin s =
        (Returned,
         s\<lparr>trace := trace s @ [ClaimOutput (handle s) pin], lgpio_calls := lgpio_calls s + 1\<rparr>)) \<and>
   (\<not> lgpio_ok s (lgpio_calls s) \<and> lgpio_ok s (lgpio_calls s + 1) \<longrightarrow>
      claim_or_retry pin s =
        (if lgpio_ok s (lgpio_calls s + 2) then Returned else Raised LgpioError,
         s\<lparr>trace := trace s @
              [ClaimOutput (handle s) pin, Free (handle s) pin, ClaimOutput (handle s) pin],
           lgpio_calls := lgpio_calls s + 3\<rparr>)) \<and>
   (\<not> lgpio_ok s (lgpio_calls s) \<and> \<not> lgpio_ok s (lgpio_calls s + 1) \<longrightarrow>
      claim_or_retry pin s =
        (Raised LgpioError,
         s\<lparr>trace := trace s @ [ClaimOutput (handle s) pin, Free (handle s) pin],
           lgpio_calls := lgpio_calls s + 2\<rparr>)) \<and>
   (\<not> gpio_setup s \<longrightarrow>
      (let s0 = gpiochip_open (find_rp1_chip (gpiochips s)) s;
           dat = claim_or_retry DAT s0;
           clk = claim_or_retry CLK (snd dat)
       in (fst dat \<noteq> Returned \<longrightarrow> show' s = dat \<and> \<not> gpio_setup (snd (show' s))) \<and>
          (fst dat = Returned \<and> fst clk \<noteq> Returned \<longrightarrow>
             show' s = clk \<and> \<not> gpio_setup (snd (show' s)))))"
proof (intro conjI impI)
  assume "lgpio_ok s (lgpio_calls s)"
  then show "claim_or_retry pin s =
        (Returned,
         s\<lparr>trace := trace s @ [ClaimOutput (handle s) pin], lgpio_calls := lgpio_calls s + 1\<rparr>)"
    by (simp add: claim_or_retry_eq claim_outcome_def claim_events_def claim_calls_def)
next
  assume "\<not> lgpio_ok s (lgpio_calls s) \<and> lgpio_ok s (lgpio_calls s + 1)"
  then show "claim_or_retry pin s =
        (if lgpio_ok s (lgpio_calls s + 2) then Returned else Raised LgpioError,
         s\<lparr>trace := trace s @
              [ClaimOutput (handle s) pin, Free (handle s) pin, ClaimOutput (handle s) pin],
           lgpio_calls := lgpio_calls s + 3\<rparr>)"
    by (simp add: claim_or_retry_eq claim_outcome_def claim_events_def claim_calls_def)
next
  assume "\<not> lgpio_ok s (lgpio_calls s) \<and> \<not> lgpio_ok s (lgpio_calls s + 1)"
  then show "claim_or_retry pin s =
        (Raised LgpioError,
         s\<lparr>trace := trace s @ [ClaimOutput (handle s) pin, Free (handle s) pin],
           lgpio_calls := lgpio_calls s + 2\<rparr>)"
    by (simp add: claim_or_retry_eq claim_outcome_def claim_events_def claim_calls_def)
next
  assume ns: "\<not> gpio_setup s"
  define s0 where "s0 = gpiochip_open (find_rp1_chip (gpiochips s)) s"
  define dat where "dat = claim_or_retry DAT s0"
  define clk where "clk = claim_or_retry CLK (snd dat)"
  have g0: "\<not> gpio_setup s0"
    using ns by (simp add: s0_def gpiochip_open_eq)
  have gd: "\<not> gpio_setup (snd dat)"
    using g0 by (simp add: dat_def claim_or_retry_eq)
  have gc: "\<not> gpio_setup (snd clk)"
    using gd by (simp add: clk_def claim_or_retry_eq)
  have ls: "lazy_setup s =
      (case dat of
         (Raised e, s2) \<Rightarrow> (Raised e, s2)
       | (Returned, s2) \<Rightarrow>
           (case clk of
              (Raised e, s3) \<Rightarrow> (Raised e, s3)
            | (Returned, s3) \<Rightarrow> (Returned, (emit AtexitRegister s3)\<lparr>gpio_setup := True\<rparr>)))"
  proof (cases dat)
    case (Pair r s2)
    have "lazy_setup s =
      (case dat of
         (Raised e, s2) \<Rightarrow> (Raised e, s2)
       | (Returned, s2) \<Rightarrow>
           (case claim_or_retry CLK s2 of
              (Raised e, s3) \<Rightarrow> (Raised e, s3)
            | (Returned, s3) \<Rightarrow> (Returned, (emit AtexitRegister s3)\<lparr>gpio_setup := True\<rparr>)))"
      unfolding lazy_setup_def Let_def dat_def s0_def ..
    then show ?thesis
      unfolding clk_def Pair by (cases r) simp_all
  qed
  have show_eq: "show' s =
      (case lazy_setup s of
         (Raised e, s1) \<Rightarrow> (Raised e, s1)
       | (Returned, s1) \<Rightarrow>
           (case for_each (pixels s1) show_pixel (sof s1) of
              (Raised e, s2) \<Rightarrow> (Raised e, s2)
            | (Returned, s2) \<Rightarrow> (Returned, eof s2)))"
    using ns by (simp add: show'_def)
  have d: "fst dat \<noteq> Returned \<longrightarrow> show' s = dat \<and> \<not> gpio_setup (snd (show' s))"
  proof
    assume "fst dat \<noteq> Returned"
    then obtain e s2 where "dat = (Raised e, s2)"
      by (cases dat; cases "fst dat") auto
    then show "show' s = dat \<and> \<not> gpio_setup (snd (show' s))"
      using gd by (simp add: show_eq ls)
  qed
  have c: "fst dat = Returned \<and> fst clk \<noteq> Returned \<longrightarrow>
             show' s = clk \<and> \<not> gpio_setup (snd (show' s))"
  proof
    assume a: "fst dat = Returned \<and> fst clk \<noteq> Returned"
    then obtain s2 where d2: "dat = (Returned, s2)"
      by (cases dat) auto
    from a obtain e s3 where "clk = (Raised e, s3)"
      by (cases clk; cases "fst clk") auto
    then show "show' s = clk \<and> \<not> gpio_setup (snd (show' s))"
      using gc d2 by (simp add: show_eq ls)
  qed
  show "let s0 = gpiochip_open (find_rp1_chip (gpiochips s)) s;
           dat = claim_or_retry DAT s0;
           clk = claim_or_retry CLK (snd dat)
       in (fst dat \<noteq> Returned \<longrightarrow> show' s = dat \<and> \<not> gpio_setup (snd (show' s))) \<and>
          (fst dat = Returned \<and> fst clk \<noteq> Returned \<longrightarrow>
             show' s = clk \<and> \<not> gpio_setup (snd (show' s)))"
    unfolding Let_def using d c unfolding s0_def dat_def clk_def by (rule conjI)
qed

theorem claim_retry_policy_witness:
  "lgpio_ok (init no_failures pi5_chips) (lgpio_calls (init no_failures pi5_chips)) \<and>
   fst (claim_or_retry DAT (init no_failures pi5_chips)) = Returned \<and>
   \<not> lgpio_ok (init (ok_except [0]) pi5_chips) (lgpio_calls (init (ok_except [0]) pi5_chips)) \<and>
   lgpio_ok (init (ok_except [0]) pi5_chips) (lgpio_calls (init (ok_except [0]) pi5_chips) + 1) \<and>
   fst (claim_or_retry DAT (init (ok_except [0]) pi5_chips)) = Returned \<and>
   trace (snd (claim_or_retry DAT (init (ok_except [0]) pi5_chips))) =
     [ClaimOutput None DAT, Free None DAT, ClaimOutput None DAT] \<and>
   \<not> lgpio_ok (init (ok_except [0, 1]) pi5_chips) (lgpio_calls (init (ok_except [0, 1]) pi5_chips)) \<and>
   \<not> lgpio_ok (init (ok_except [0, 1]) pi5_chips) (lgpio_calls (init (ok_except [0, 1]) pi5_chips) + 1) \<and>
   fst (claim_or_retry DAT (init (ok_except [0, 1]) pi5_chips)) = Raised LgpioError \<and>
   \<not> gpio_setup (init (ok_except [0, 2]) pi5_chips) \<and>
   fst (show' (init (ok_except [0, 2]) pi5_chips)) = Raised LgpioError \<and>
   trace (snd (show' (init (ok_except [0, 2]) pi5_chips))) =
     [ChipOpen 4, ClaimOutput (Some 0) DAT, Free (Some 0) DAT, ClaimOutput (Some 0) DAT] \<and>
   \<not> gpio_setup (snd (show' (init (ok_except [0, 2]) pi5_chips))) \<and>
   \<not> gpio_setup (init (ok_except [1, 3]) pi5_chips) \<and>
   fst (show' (init (ok_except [1, 3]) pi5_chips)) = Raised LgpioError \<and>
   trace (snd (show' (init (ok_except [1, 3]) pi5_chips))) =
     [ChipOpen 4, ClaimOutput (Some 0) DAT, ClaimOutput (Some 0) CLK, Free (Some 0) CLK,
      ClaimOutput (Some 0) CLK] \<and>
   \<not> gpio_setup (snd (show' (init (ok_except [1, 3]) pi5_chips)))"
proof -
  have ev: "claim_or_retry pin (gpiochip_open c (init ok chips)) =
     (claim_outcome ok 0,
      (init ok chips)\<lparr>handle := Some 0, trace := ChipOpen c # claim_events ok 0 (Some 0) pin,
        lgpio_calls := claim_calls ok 0\<rparr>)" for pin c ok chips
    by (simp add: claim_or_retry_eq gpiochip_open_eq init_env)
  have ev2: "claim_or_retry CLK (s\<lparr>handle := Some 0, trace := es, lgpio_calls := Suc 0\<rparr>) =
     (claim_outcome (lgpio_ok s) 1,
      s\<lparr>handle := Some 0, trace := es @ claim_events (lgpio_ok s) 1 (Some 0) CLK,
        lgpio_calls := 1 + claim_calls (lgpio_ok s) 1\<rparr>)" for s es
    by (simp add: claim_or_retry_eq)
  show ?thesis
    using claim_retry_policy [of "init no_failures pi5_chips" DAT]
      claim_retry_policy [of "init (ok_except [0]) pi5_chips" DAT]
      claim_retry_policy [of "init (ok_except [0, 1]) pi5_chips" DAT]
      claim_retry_policy [of "init (ok_except [0, 2]) pi5_chips" DAT]
      claim_retry_policy [of "init (ok_except [1, 3]) pi5_chips" DAT]
    by (simp add: init_env no_failures_def ok_except_def Let_def find_pi5 ev ev2
        claim_outcome_def claim_events_def claim_calls_def)
qed

text \<open>
  Claim C8 as the specification words it, with a retry whenever the initial claim
  fails, fails when the forced release raises too: the claim of the data pin is made
  once, the release raises, and \<open>show()\<close> raises without a retry.
\<close>

theorem claim_retry_release_counterexample:
  "\<not> lgpio_ok (init (ok_except [0, 1]) pi5_chips) 0 \<and>
   fst (show' (init (ok_except [0, 1]) pi5_chips)) = Raised LgpioError \<and>
   trace (snd (show' (init (ok_except [0, 1]) pi5_chips))) =
     [ChipOpen 4, ClaimOutput (Some 0) DAT, Free (Some 0) DAT] \<and>
   length (filter (is_claim DAT) (trace (snd (show' (init (ok_except [0, 1]) pi5_chips))))) = 1"
proof -
  have n: "\<not> gpio_setup (init (ok_except [0, 1]) pi5_chips)"
    by (simp add: init_env)
  have ls: "lazy_setup (init (ok_except [0, 1]) pi5_chips) =
      (Raised LgpioError,
       (init (ok_except [0, 1]) pi5_chips)\<lparr>handle := Some 0,
          trace := [ChipOpen 4, ClaimOutput (Some 0) DAT, Free (Some 0) DAT],
          lgpio_calls := 2\<rparr>)"
    by (simp add: lazy_setup_eq Let_def init_env find_pi5 ok_except_def
        claim_outcome_def claim_events_def claim_calls_def)
  show ?thesis
    unfolding show_first [OF n init_four] ls
    by (simp add: init_env ok_except_def)
qed

subsection \<open>Lazy set-up\<close>

text \<open>
  Claim C9, as the code has it. When the first \<open>show()\<close> call (the driver not yet set
  up) returns, the driver is Ready; a second \<open>show()\<close> call then returns and records exactly one
  transmission and nothing else, and leaves the driver Ready, as does every \<open>show()\<close>
  call in the Ready state. Over the two calls the
  chip is opened once, the exit hook is registered once and each pin is claimed once
  (twice when its first claim was retried), all before the first write, and from the
  first write on the record is two full transmissions of the buffer.
\<close>

theorem lazy_init_once:
  assumes "\<not> gpio_setup s" "list_all (\<lambda>a. length (heap s a) = 4) (pixels s)"
    and "fst (show' s) = Returned"
  shows "(let s1 = snd (show' s); s2 = snd (show' s1); h = handle s1
          in gpio_setup s1 \<and> fst (show' s1) = Returned \<and> gpio_setup s2 \<and>
             emitted s1 s2 = frame_events h (buffer s) \<and>
             dropWhile (\<lambda>e. \<not> is_write e) (emitted s s1) = frame_events h (buffer s) \<and>
             dropWhile (\<lambda>e. \<not> is_write e) (emitted s s2) =
               frame_events h (buffer s) @ frame_events h (buffer s) \<and>
             length (filter is_open (emitted s s2)) = 1 \<and>
             length (filter is_register (emitted s s2)) = 1 \<and>
             length (filter (is_claim DAT) (emitted s s2)) \<in> {1, 2} \<and>
             length (filter (is_claim CLK) (emitted s s2)) \<in> {1, 2}) \<and>
         (gpio_setup u \<and> list_all (\<lambda>a. length (heap u a) = 4) (pixels u) \<longrightarrow>
            fst (show' u) = Returned \<and> gpio_setup (snd (show' u)) \<and>
            emitted u (snd (show' u)) = frame_events (handle u) (buffer u))"
proof -
  define c where "c = find_rp1_chip (gpiochips s)"
  define h where "h = Some (length (filter is_open (trace s)))"
  define ok where "ok = lgpio_ok s"
  define n where "n = lgpio_calls s"
  define m where "m = n + claim_calls ok n"
  define ini where "ini = ChipOpen c # claim_events ok n h DAT @ claim_events ok m h CLK @ [AtexitRegister]"
  define t where "t = s\<lparr>handle := h, trace := trace s @ ini,
                 lgpio_calls := m + claim_calls ok m, gpio_setup := True\<rparr>"
  define s1 where "s1 = t\<lparr>trace := trace t @ frame_events h (buffer s)\<rparr>"
  define s2 where "s2 = s1\<lparr>trace := trace s1 @ frame_events h (buffer s)\<rparr>"
  note first = show_first [OF assms(1,2)]
  have ls: "lazy_setup s =
     (if claim_outcome ok n \<noteq> Returned
         then (Raised LgpioError, s\<lparr>handle := h, trace := trace s @ ChipOpen c # claim_events ok n h DAT, lgpio_calls := m\<rparr>)
         else if claim_outcome ok m \<noteq> Returned
         then (Raised LgpioError,
               s\<lparr>handle := h, trace := trace s @ (ChipOpen c # claim_events ok n h DAT) @ claim_events ok m h CLK, lgpio_calls := m + claim_calls ok m\<rparr>)
         else (Returned, t))"
    unfolding lazy_setup_eq Let_def c_def h_def ok_def n_def m_def t_def ini_def by simp
  have o1: "claim_outcome ok n = Returned"
    using assms(3) unfolding first ls by (auto split: if_splits)
  have o2: "claim_outcome ok m = Returned"
    using assms(3) unfolding first ls by (auto split: if_splits)
  have lt: "lazy_setup s = (Returned, t)"
    using o1 o2 by (simp add: ls)
  have th: "handle t = h" "buffer t = buffer s" "gpio_setup t"
    by (simp_all add: t_def buffer_def)
  have e1: "show' s = (Returned, s1)"
    unfolding first lt s1_def by (simp add: th)
  have r1: "gpio_setup s1" "list_all (\<lambda>a. length (heap s1 a) = 4) (pixels s1)"
    "handle s1 = h" "buffer s1 = buffer s"
    using assms(2) by (simp_all add: s1_def t_def buffer_def)
  have e2: "show' s1 = (Returned, s2)"
    unfolding show_ready [OF r1(1,2)] s2_def r1 ..
  have em1: "emitted s s1 = ini @ frame_events h (buffer s) @ []"
    by (simp add: emitted_def s1_def t_def)
  have em2: "emitted s s2 = ini @ frame_events h (buffer s) @ frame_events h (buffer s)"
    by (simp add: emitted_def s2_def s1_def t_def)
  have em12: "emitted s1 s2 = frame_events h (buffer s)"
    by (simp add: emitted_def s2_def)
  have nw: "filter is_write ini = []"
    by (simp add: ini_def filter_claim_events)
  have d1: "dropWhile (\<lambda>e. \<not> is_write e) (emitted s s1) = frame_events h (buffer s)"
    unfolding em1 dropWhile_setup_frame [OF nw] by simp
  have d2: "dropWhile (\<lambda>e. \<not> is_write e) (emitted s s2) =
              frame_events h (buffer s) @ frame_events h (buffer s)"
    unfolding em2 by (rule dropWhile_setup_frame [OF nw])
  have c1: "length (filter is_open (emitted s s2)) = 1"
    unfolding em2 by (simp add: ini_def filter_claim_events filter_frame_events)
  have c2: "length (filter is_register (emitted s s2)) = 1"
    unfolding em2 by (simp add: ini_def filter_claim_events filter_frame_events)
  have ne: "DAT \<noteq> CLK" "CLK \<noteq> DAT" by (simp_all add: DAT_def CLK_def)
  have c3: "length (filter (is_claim DAT) (emitted s s2)) \<in> {1, 2}"
    unfolding em2
    by (simp add: ini_def filter_frame_events claims_of_pin(1) [OF o1] claims_of_pin(2) [OF ne(1)])
  have c4: "length (filter (is_claim CLK) (emitted s s2)) \<in> {1, 2}"
    unfolding em2
    by (simp add: ini_def filter_frame_events claims_of_pin(1) [OF o2] claims_of_pin(2) [OF ne(2)])
  have g2: "gpio_setup s2" by (simp add: s2_def r1)
  have ready: "gpio_setup u \<and> list_all (\<lambda>a. length (heap u a) = 4) (pixels u) \<longrightarrow>
            fst (show' u) = Returned \<and> gpio_setup (snd (show' u)) \<and>
            emitted u (snd (show' u)) = frame_events (handle u) (buffer u)"
    by (simp add: show_ready emitted_append)
  have two: "gpio_setup s1 \<and> fst (show' s1) = Returned \<and> gpio_setup s2 \<and>
             emitted s1 s2 = frame_events h (buffer s) \<and>
             dropWhile (\<lambda>e. \<not> is_write e) (emitted s s1) = frame_events h (buffer s) \<and>
             dropWhile (\<lambda>e. \<not> is_write e) (emitted s s2) =
               frame_events h (buffer s) @ frame_events h (buffer s) \<and>
             length (filter is_open (emitted s s2)) = 1 \<and>
             length (filter is_register (emitted s s2)) = 1 \<and>
             length (filter (is_claim DAT) (emitted s s2)) \<in> {1, 2} \<and>
             length (filter (is_claim CLK) (emitted s s2)) \<in> {1, 2}"
    using r1(1) g2 em12 d1 d2 c1 c2 c3 c4 by (simp add: e2)
  show ?thesis
    unfolding Let_def e1 snd_conv e2 fst_conv r1(3)
    using two ready unfolding e2 snd_conv fst_conv by (rule conjI)
qed

theorem lazy_init_once_witness:
  "\<not> gpio_setup (init no_failures pi5_chips) \<and>
   list_all (\<lambda>a. length (heap (init no_failures pi5_chips) a) = 4) (pixels (init no_failures pi5_chips)) \<and>
   fst (show' (init no_failures pi5_chips)) = Returned \<and>
   gpio_setup (snd (show' (init no_failures pi5_chips))) \<and>
   fst (show' (snd (show' (init no_failures pi5_chips)))) = Returned \<and>
   length (filter is_open (emitted (init no_failures pi5_chips)
     (snd (show' (snd (show' (init no_failures pi5_chips))))))) = 1 \<and>
   length (filter is_register (emitted (init no_failures pi5_chips)
     (snd (show' (snd (show' (init no_failures pi5_chips))))))) = 1 \<and>
   emitted (snd (show' (init no_failures pi5_chips))) (snd (show' (snd (show' (init no_failures pi5_chips))))) =
     frame_events (handle (snd (show' (init no_failures pi5_chips)))) (buffer (init no_failures pi5_chips)) \<and>
   list_all (\<lambda>a. length (heap (snd (show' (init no_failures pi5_chips))) a) = 4)
     (pixels (snd (show' (init no_failures pi5_chips)))) \<and>
   gpio_setup (snd (show' (snd (show' (init no_failures pi5_chips)))))"
proof -
  have n: "\<not> gpio_setup (init no_failures pi5_chips)" by (simp add: init_env)
  note ready = show_returned_ready [OF n init_four show_init_returns]
  have four: "list_all (\<lambda>a. length (heap (snd (show' (init no_failures pi5_chips))) a) = 4)
     (pixels (snd (show' (init no_failures pi5_chips))))"
    unfolding ready(2,3) by (rule init_four)
  note t = lazy_init_once [OF n init_four show_init_returns, unfolded Let_def,
      where u = "snd (show' (init no_failures pi5_chips))"]
  show ?thesis
    using t n init_four [of no_failures pi5_chips] show_init_returns [of pi5_chips] four ready(1)
    by simp
qed

text \<open>
  Claim C9 as the specification words it, for every first call, fails when the first
  \<open>show()\<close> raises in its set-up (the data pin cannot be claimed, twice): the driver is
  not Ready, and the second \<open>show()\<close> performs the set-up again, so two consecutive calls
  open the chip twice.
\<close>

theorem lazy_init_first_raises_counterexample:
  "fst (show' (init (ok_except [0, 2]) pi5_chips)) = Raised LgpioError \<and>
   \<not> gpio_setup (snd (show' (init (ok_except [0, 2]) pi5_chips))) \<and>
   fst (show' (snd (show' (init (ok_except [0, 2]) pi5_chips)))) = Returned \<and>
   length (filter is_open
     (trace (snd (show' (snd (show' (init (ok_except [0, 2]) pi5_chips))))))) = 2 \<and>
   length (filter is_open (emitted (snd (show' (init (ok_except [0, 2]) pi5_chips)))
     (snd (show' (snd (show' (init (ok_except [0, 2]) pi5_chips))))))) = 1"
proof -
  define s1 where "s1 = (init (ok_except [0, 2]) pi5_chips)\<lparr>handle := Some 0,
          trace := [ChipOpen 4, ClaimOutput (Some 0) DAT, Free (Some 0) DAT,
            ClaimOutput (Some 0) DAT],
          lgpio_calls := 3\<rparr>"
  define t where "t = s1\<lparr>handle := Some 1,
          trace := trace s1 @ [ChipOpen 4, ClaimOutput (Some 1) DAT, ClaimOutput (Some 1) CLK,
            AtexitRegister],
          lgpio_calls := 5, gpio_setup := True\<rparr>"
  have n: "\<not> gpio_setup (init (ok_except [0, 2]) pi5_chips)"
    by (simp add: init_env)
  have ls: "lazy_setup (init (ok_except [0, 2]) pi5_chips) = (Raised LgpioError, s1)"
    unfolding s1_def
    by (simp add: lazy_setup_eq Let_def init_env find_pi5 ok_except_def
        claim_outcome_def claim_events_def claim_calls_def)
  have e1: "show' (init (ok_except [0, 2]) pi5_chips) = (Raised LgpioError, s1)"
    unfolding show_first [OF n init_four] ls by simp
  have n1: "\<not> gpio_setup s1"
    by (simp add: s1_def init_env)
  have four: "list_all (\<lambda>a. length (heap s1 a) = 4) (pixels s1)"
    using init_four [of "ok_except [0, 2]" pi5_chips] by (simp add: s1_def)
  have ls1: "lazy_setup s1 = (Returned, t)"
    unfolding t_def s1_def
    by (simp add: lazy_setup_eq Let_def init_env find_pi5 ok_except_def
        claim_outcome_def claim_events_def claim_calls_def)
  have e2: "show' s1 = (Returned, t\<lparr>trace := trace t @ frame_events (handle t) (buffer s1)\<rparr>)"
    unfolding show_first [OF n1 four] ls1 by simp
  have o: "filter is_open (frame_events h buf) = []" for h buf
    by (rule filter_frame_events) simp_all
  show ?thesis
    unfolding e1 snd_conv fst_conv e2
    using n1 by (simp add: emitted_def o t_def s1_def)
qed

end
